theory Spec2Isabelle
  imports Main
begin

section \<open>Strings of the source language\<close>

text \<open>
  A JavaScript string is a sequence of UTF-16 code units. A code unit is modelled as a
  natural number and a string as a list of them, so that \<open>str.length\<close> is \<open>length\<close>
  and \<open>str[i]\<close> is the i-th element. String literals of the source are written
  \<open>js ''...''\<close>.
\<close>

type_synonym jschar = nat
type_synonym jsstring = "jschar list"

definition js :: "string \<Rightarrow> jsstring" where
  "js s = map of_char s"

abbreviation QUOTE :: jschar where "QUOTE \<equiv> 39"
abbreviation LBRACK :: jschar where "LBRACK \<equiv> 91"
abbreviation RBRACK :: jschar where "RBRACK \<equiv> 93"
abbreviation SEMI :: jschar where "SEMI \<equiv> 59"
abbreviation EQUALS :: jschar where "EQUALS \<equiv> 61"
abbreviation LF :: jschar where "LF \<equiv> 10"

text \<open>
  The class \<open>\s\<close> of a regular expression, which is also what \<open>String.prototype.trim\<close>
  removes: the white space and line terminator code points of ECMAScript.
\<close>

definition isWhitespace :: "jschar \<Rightarrow> bool" where
  "isWhitespace c \<longleftrightarrow>
     c = 9 \<or> c = 10 \<or> c = 11 \<or> c = 12 \<or> c = 13 \<or> c = 32 \<or> c = 160 \<or> c = 5760 \<or>
     (8192 \<le> c \<and> c \<le> 8202) \<or> c = 8232 \<or> c = 8233 \<or> c = 8239 \<or> c = 8287 \<or>
     c = 12288 \<or> c = 65279"

text \<open>The line terminators, which \<open>.\<close> in a regular expression does not match.\<close>

definition isLineTerminator :: "jschar \<Rightarrow> bool" where
  "isLineTerminator c \<longleftrightarrow> c = 10 \<or> c = 13 \<or> c = 8232 \<or> c = 8233"

text \<open>The class \<open>\d\<close>.\<close>

definition isDigit :: "jschar \<Rightarrow> bool" where
  "isDigit c \<longleftrightarrow> 48 \<le> c \<and> c \<le> 57"

text \<open>The class \<open>\w\<close>, which decides the word boundary \<open>\b\<close>.\<close>

definition isWordChar :: "jschar \<Rightarrow> bool" where
  "isWordChar c \<longleftrightarrow>
     (48 \<le> c \<and> c \<le> 57) \<or> (65 \<le> c \<and> c \<le> 90) \<or> c = 95 \<or> (97 \<le> c \<and> c \<le> 122)"

section \<open>Sequence: the stripping pass\<close>

text \<open>
  \<open>Sequence._clean\<close> scans \<open>str\<close> with three variables: the output \<open>clean\<close>, the comment
  depth \<open>stack\<close> and the flag \<open>inQuote\<close>. The loop index \<open>i\<close> is the position of the
  head of the remaining input; the extra \<open>i++\<close> of the escaped quote drops one more
  character. The loop returns its three variables.
\<close>

record scan =
  clean :: jsstring
  stack :: nat
  inQuote :: bool

fun clean_loop :: "jsstring \<Rightarrow> scan \<Rightarrow> scan" where
  "clean_loop [] s = s"
| "clean_loop (c # cs) s =
     (if c = QUOTE then
        (if inQuote s \<and> cs \<noteq> [] \<and> hd cs = QUOTE then
           clean_loop (tl cs) (if stack s = 0 then s\<lparr>clean := clean s @ [QUOTE]\<rparr> else s)
         else
           clean_loop cs
             (if stack s = 0 then s\<lparr>inQuote := \<not> inQuote s, clean := clean s @ [QUOTE]\<rparr>
              else s\<lparr>inQuote := \<not> inQuote s\<rparr>))
      else if \<not> inQuote s \<and> c = LBRACK then
        clean_loop cs (s\<lparr>stack := stack s + 1\<rparr>)
      else if \<not> inQuote s \<and> c = RBRACK then
        clean_loop cs (if stack s > 0 then s\<lparr>stack := stack s - 1\<rparr> else s)
      else
        clean_loop cs (if stack s = 0 then s\<lparr>clean := clean s @ [c]\<rparr> else s))"

definition scan0 :: scan where
  "scan0 = \<lparr>clean = [], stack = 0, inQuote = False\<rparr>"

text \<open>\<open>_clean(str)\<close>: the scan, then \<open>clean.replace(/\s/g, '')\<close>.\<close>

definition Sequence_clean :: "jsstring \<Rightarrow> jsstring" where
  "Sequence_clean str = filter (\<lambda>c. \<not> isWhitespace c) (clean (clean_loop str scan0))"

section \<open>The host's document and diagnostics\<close>

text \<open>
  The editor API (positions, ranges, diagnostics, the text document) is a library the
  source calls, not part of the repository. Its values are modelled as data. A call
  that the host answers by throwing is a value of \<open>fault\<close>: the \<open>Position\<close> constructor
  refuses a negative line or character, and \<open>lineAt\<close> refuses a line that is not in the
  document.
\<close>

datatype fault = IllegalArgument

datatype position = Position (line: nat) (character: nat)

text \<open>\<open>pos.translate(lineDelta, characterDelta)\<close>.\<close>

definition translate :: "position \<Rightarrow> int \<Rightarrow> int \<Rightarrow> fault + position" where
  "translate p lineDelta characterDelta =
     (if int (line p) + lineDelta < 0 \<or> int (character p) + characterDelta < 0
      then Inl IllegalArgument
      else Inr (Position (nat (int (line p) + lineDelta))
                         (nat (int (character p) + characterDelta))))"

definition isBefore :: "position \<Rightarrow> position \<Rightarrow> bool" where
  "isBefore a b \<longleftrightarrow> line a < line b \<or> (line a = line b \<and> character a < character b)"

datatype vrange = MkRange (start: position) (stop: position)

text \<open>\<open>new vscode.Range(a, b)\<close>: the host orders the two ends.\<close>

definition Range :: "position \<Rightarrow> position \<Rightarrow> vrange" where
  "Range a b = (if isBefore a b then MkRange a b else MkRange b a)"

datatype severity = Error | Warning | Information | Hint

datatype diagnostic = Diagnostic (drange: vrange) (message: jsstring) (severity: severity)

record textline =
  text_l :: jsstring
  range_l :: vrange

text \<open>
  The text document: its text and the Position Index over it. The index is a pair of
  functions the host supplies, so the validator is defined for any index.
\<close>

record document =
  languageId :: jsstring
  fileName :: jsstring
  uri :: jsstring
  getText :: jsstring
  positionAt :: "nat \<Rightarrow> position"
  lineAt :: "nat \<Rightarrow> fault + textline"

text \<open>
  Modelled from the spec: the Position Index of the spec's section 6 (the host's
  \<open>positionAt\<close> and \<open>lineAt\<close>, which are not under src/), for a text whose lines end
  with a line feed. \<open>offset_to_position\<close> counts the line feeds before the offset
  (an offset past the end is the end) and \<open>line_range\<close> is the whole line without its
  line feed.
\<close>

fun lf_lines :: "jsstring \<Rightarrow> jsstring list" where
  "lf_lines [] = [[]]"
| "lf_lines (c # cs) =
     (if c = LF then [] # lf_lines cs
      else (case lf_lines cs of [] \<Rightarrow> [[c]] | l # ls \<Rightarrow> (c # l) # ls))"

definition lf_positionAt :: "jsstring \<Rightarrow> nat \<Rightarrow> position" where
  "lf_positionAt txt offset =
     (let pre = take offset txt
      in Position (count_list pre LF) (length (takeWhile (\<lambda>c. c \<noteq> LF) (rev pre))))"

definition lf_lineAt :: "jsstring \<Rightarrow> nat \<Rightarrow> fault + textline" where
  "lf_lineAt txt i =
     (if i < length (lf_lines txt)
      then Inr \<lparr>text_l = lf_lines txt ! i,
                range_l = Range (Position i 0) (Position i (length (lf_lines txt ! i)))\<rparr>
      else Inl IllegalArgument)"

definition textDocument :: "jsstring \<Rightarrow> jsstring \<Rightarrow> jsstring \<Rightarrow> document" where
  "textDocument lang name txt =
     \<lparr>languageId = lang, fileName = name, uri = name, getText = txt,
      positionAt = lf_positionAt txt, lineAt = lf_lineAt txt\<rparr>"

text \<open>
  A number in a template string. The counts of the source are natural numbers; the
  decimal text below is what a template string holds for every value below \<open>2^53\<close>,
  where a JavaScript number is exact. It is not the text of a larger declared value,
  which the source rounds and, from \<open>10^21\<close> on, prints with an exponent.
\<close>

fun Number_toString :: "nat \<Rightarrow> jsstring" where
  "Number_toString n =
     (if n < 10 then [48 + n] else Number_toString (n div 10) @ [48 + n mod 10])"

declare Number_toString.simps [simp del]

section \<open>validateComments: bracket and quote balance\<close>

text \<open>
  Both bracket diagnostics have the shape
  \<open>new Diagnostic(new Range(pos, pos.translate(0, 1)), msg, Error)\<close> with
  \<open>pos = document.positionAt(index)\<close>.
\<close>

definition bracketDiagnostic :: "document \<Rightarrow> nat \<Rightarrow> jsstring \<Rightarrow> fault + diagnostic" where
  "bracketDiagnostic d index msg =
     (let pos = positionAt d index
      in case translate pos 0 1 of
           Inl e \<Rightarrow> Inl e
         | Inr pos' \<Rightarrow> Inr (Diagnostic (Range pos pos') msg Error))"

definition msgUnexpected :: jsstring where
  "msgUnexpected = js ''Unexpected closing bracket '' @ [QUOTE, RBRACK, QUOTE]"

definition msgUnclosedQuote :: jsstring where
  "msgUnclosedQuote = js ''Unclosed single quote. This may hide other errors.''"

definition msgUnclosedComment :: jsstring where
  "msgUnclosedComment = js ''Unclosed comment block '' @ [QUOTE, LBRACK, QUOTE]"

text \<open>
  The scan of \<open>validateComments\<close>: \<open>i\<close> is the index of the head of the remaining
  text, \<open>stack\<close> holds the indices of the open brackets (\<open>push\<close> appends, \<open>pop\<close> removes
  the last), \<open>diagnostics\<close> is the caller's array.
\<close>

fun comments_loop ::
  "document \<Rightarrow> jsstring \<Rightarrow> nat \<Rightarrow> nat list \<Rightarrow> bool \<Rightarrow> diagnostic list
     \<Rightarrow> fault + (nat list \<times> bool \<times> diagnostic list)" where
  "comments_loop d [] i stk inQ diagnostics = Inr (stk, inQ, diagnostics)"
| "comments_loop d (c # cs) i stk inQ diagnostics =
     (if c = QUOTE then
        (if inQ \<and> cs \<noteq> [] \<and> hd cs = QUOTE then
           comments_loop d (tl cs) (i + 2) stk inQ diagnostics
         else comments_loop d cs (i + 1) stk (\<not> inQ) diagnostics)
      else if inQ then comments_loop d cs (i + 1) stk inQ diagnostics
      else if c = LBRACK then comments_loop d cs (i + 1) (stk @ [i]) inQ diagnostics
      else if c = RBRACK then
        (if stk = [] then
           (case bracketDiagnostic d i msgUnexpected of
              Inl e \<Rightarrow> Inl e
            | Inr dg \<Rightarrow> comments_loop d cs (i + 1) stk inQ (diagnostics @ [dg]))
         else comments_loop d cs (i + 1) (butlast stk) inQ diagnostics)
      else comments_loop d cs (i + 1) stk inQ diagnostics)"

text \<open>The loop \<open>for (const index of stack)\<close> over the brackets left open.\<close>

fun unclosed_loop :: "document \<Rightarrow> nat list \<Rightarrow> diagnostic list \<Rightarrow> fault + diagnostic list" where
  "unclosed_loop d [] diagnostics = Inr diagnostics"
| "unclosed_loop d (index # rest) diagnostics =
     (case bracketDiagnostic d index msgUnclosedComment of
        Inl e \<Rightarrow> Inl e
      | Inr dg \<Rightarrow> unclosed_loop d rest (diagnostics @ [dg]))"

text \<open>
  A visible editor: the uri of the document it shows and the ranges it decorates with
  \<open>unclosedCommentDecoration\<close>. \<open>setDecorations\<close> replaces the ranges of every editor
  that shows the document.
\<close>

type_synonym editor = "jsstring \<times> vrange list"

definition setDecorations :: "document \<Rightarrow> vrange list \<Rightarrow> editor list \<Rightarrow> editor list" where
  "setDecorations d decorationRanges editors =
     map (\<lambda>(u, r). if u = uri d then (u, decorationRanges) else (u, r)) editors"

text \<open>
  \<open>validateComments(document, diagnostics, outputChannel)\<close>. The output channel is the
  list of its lines. The result is the diagnostics array, the channel and the
  editors after the call, or the fault the host threw.
\<close>

definition validateComments ::
  "document \<Rightarrow> diagnostic list \<Rightarrow> jsstring list \<Rightarrow> editor list
     \<Rightarrow> fault + (diagnostic list \<times> jsstring list \<times> editor list)" where
  "validateComments d diagnostics outputChannel editors =
     (let txt = getText d in
      case comments_loop d txt 0 [] False diagnostics of
        Inl e \<Rightarrow> Inl e
      | Inr (stk, inQ, diagnostics1) \<Rightarrow>
          (case (if inQ then
                   (let lastPos = positionAt d (length txt)
                    in case translate lastPos 0 (- 1) of
                         Inl e \<Rightarrow> Inl e
                       | Inr p \<Rightarrow>
                           Inr (diagnostics1 @
                                [Diagnostic (Range p lastPos) msgUnclosedQuote Error]))
                 else Inr diagnostics1) of
             Inl e \<Rightarrow> Inl e
           | Inr diagnostics2 \<Rightarrow>
               (let endPos = positionAt d (length txt) in
                if stk \<noteq> [] then
                  (let outputChannel' = outputChannel @
                         [js ''   [Error] Found '' @ Number_toString (length stk) @
                          js '' unclosed comment blocks.''];
                       startPos = positionAt d (hd stk);
                       decorationRanges = [Range startPos endPos]
                   in case unclosed_loop d stk diagnostics2 of
                        Inl e \<Rightarrow> Inl e
                      | Inr diagnostics3 \<Rightarrow>
                          Inr (diagnostics3, outputChannel',
                               setDecorations d decorationRanges editors))
                else Inr (diagnostics2, outputChannel, setDecorations d [] editors))))"

section \<open>The domain model\<close>

text \<open>
  \<open>new Sequence(rawString)\<close> keeps \<open>_clean(rawString).split('')\<close>, the code units of the
  cleaned string. \<open>pushSequence\<close> replaces \<open>bases\<close> by the concatenation.
\<close>

record Sequence =
  bases :: jsstring

definition Sequence_new :: "jsstring \<Rightarrow> Sequence" where
  "Sequence_new rawString = \<lparr>bases = Sequence_clean rawString\<rparr>"

definition pushSequence :: "Sequence \<Rightarrow> Sequence \<Rightarrow> Sequence" where
  "pushSequence this otherSequence = this\<lparr>bases := bases this @ bases otherSequence\<rparr>"

record Taxon =
  name :: jsstring
  sequence :: Sequence
  lineRange :: vrange

definition Taxon_new :: "jsstring \<Rightarrow> Sequence \<Rightarrow> vrange \<Rightarrow> Taxon" where
  "Taxon_new nm sq rng = \<lparr>name = nm, sequence = sq, lineRange = rng\<rparr>"

definition Taxon_concat :: "Taxon \<Rightarrow> Sequence \<Rightarrow> Taxon" where
  "Taxon_concat this otherSequence =
     this\<lparr>sequence := pushSequence (sequence this) otherSequence\<rparr>"

definition Taxon_length :: "Taxon \<Rightarrow> nat" where
  "Taxon_length this = length (bases (sequence this))"

text \<open>
  \<open>Nexus.taxa\<close> is a \<open>Map\<close>, which keeps its keys in the order of their first
  insertion: an association list with one entry per key. \<open>addTaxon\<close> extends the
  sequence of an entry that exists and appends a new entry otherwise.
\<close>

record Nexus =
  taxa :: "(jsstring \<times> Taxon) list"

definition Nexus_new :: Nexus where
  "Nexus_new = \<lparr>taxa = []\<rparr>"

definition addTaxon :: "Nexus \<Rightarrow> Taxon \<Rightarrow> Nexus" where
  "addTaxon this taxon =
     (if name taxon \<in> set (map fst (taxa this)) then
        this\<lparr>taxa := map (\<lambda>(k, existing).
                  if k = name taxon then (k, Taxon_concat existing (sequence taxon))
                  else (k, existing)) (taxa this)\<rparr>
      else this\<lparr>taxa := taxa this @ [(name taxon, taxon)]\<rparr>)"

definition getTaxon :: "Nexus \<Rightarrow> jsstring \<Rightarrow> Taxon option" where
  "getTaxon this nm = map_of (taxa this) nm"

definition ntax :: "Nexus \<Rightarrow> nat" where
  "ntax this = length (taxa this)"

definition maxSequenceLength :: "Nexus \<Rightarrow> nat" where
  "maxSequenceLength this =
     foldl (\<lambda>max taxon. if Taxon_length taxon > max then Taxon_length taxon else max)
       0 (map snd (taxa this))"

section \<open>The regular expressions\<close>

text \<open>
  A literal letter under the flag \<open>i\<close> matches itself and its lower-case form (no
  code unit outside ASCII is canonicalised to an ASCII letter).
\<close>

definition ciEq :: "jschar \<Rightarrow> jschar \<Rightarrow> bool" where
  "ciEq c k \<longleftrightarrow> c = k \<or> (65 \<le> k \<and> k \<le> 90 \<and> c = k + 32)"

definition ciPrefix :: "jsstring \<Rightarrow> jsstring \<Rightarrow> bool" where
  "ciPrefix kw s \<longleftrightarrow> length kw \<le> length s \<and> list_all2 ciEq (take (length kw) s) kw"

text \<open>
  \<open>exec\<close> of a pattern that starts with \<open>\b\<close> and a letter: the engine tries every start
  index from the left; \<open>\b\<close> holds there when the code unit before is not a word
  character. \<open>at\<close> matches the rest of the pattern at the start of its argument.
\<close>

fun regex_search :: "(jsstring \<Rightarrow> 'a option) \<Rightarrow> bool \<Rightarrow> nat \<Rightarrow> jsstring \<Rightarrow> (nat \<times> 'a) option" where
  "regex_search at prevWord i [] =
     (if prevWord then None else map_option (Pair i) (at []))"
| "regex_search at prevWord i (c # cs) =
     (case (if prevWord then None else at (c # cs)) of
        Some r \<Rightarrow> Some (i, r)
      | None \<Rightarrow> regex_search at (isWordChar c) (i + 1) cs)"

record rmatch =
  index :: nat
  m0 :: jsstring
  m1 :: jsstring

definition mkMatch :: "(nat \<times> jsstring \<times> jsstring) option \<Rightarrow> rmatch option" where
  "mkMatch r = map_option (\<lambda>(i, whole, g1). \<lparr>index = i, m0 = whole, m1 = g1\<rparr>) r"

text \<open>
  \<open>/\bNTAX\s*=\s*(\d+)/i\<close> and \<open>/\bNCHAR\s*=\s*(\d+)/i\<close> after the \<open>\b\<close>: the keyword,
  the longest run of white space, \<open>=\<close>, the longest run of white space, the longest
  run of digits (one at least). No shorter run can match, as \<open>=\<close> and the digits are
  not white space.
\<close>

definition declRegex_at :: "jsstring \<Rightarrow> jsstring \<Rightarrow> (jsstring \<times> jsstring) option" where
  "declRegex_at kw s =
     (if ciPrefix kw s then
        (case dropWhile isWhitespace (drop (length kw) s) of
           [] \<Rightarrow> None
         | c # r2 \<Rightarrow>
             if c = EQUALS then
               (let r3 = dropWhile isWhitespace r2;
                    ds = takeWhile isDigit r3
                in if ds = [] then None
                   else Some (take (length s - length (dropWhile isDigit r3)) s, ds))
             else None)
      else None)"

definition ntaxRegex_exec :: "jsstring \<Rightarrow> rmatch option" where
  "ntaxRegex_exec txt = mkMatch (regex_search (declRegex_at (js ''NTAX'')) False 0 txt)"

definition ncharRegex_exec :: "jsstring \<Rightarrow> rmatch option" where
  "ncharRegex_exec txt = mkMatch (regex_search (declRegex_at (js ''NCHAR'')) False 0 txt)"

text \<open>
  \<open>parseInt\<close> of a run of decimal digits, as a natural number. The source holds the
  value as a JavaScript number, which is exact below \<open>2^53\<close>; a larger declared value is
  rounded, and still differs from every count a matrix can have. So the comparisons of
  steps 3 to 5 are those of the source for every declared value, and the digits of a
  message are those of the source for declared values below \<open>2^53\<close>.
\<close>

definition parseInt :: "jsstring \<Rightarrow> nat" where
  "parseInt ds = foldl (\<lambda>a c. 10 * a + (c - 48)) 0 ds"

text \<open>
  \<open>/\bMATRIX\b\s*([\s\S]*?)\s*;/i\<close> after the first \<open>\b\<close>: the keyword, a code unit that
  is not a word character (or the end), the longest run of white space, then the lazy
  group, which grows until \<open>\s*;\<close> matches: it stops before the white space that
  precedes the first semicolon. With no semicolon there is no match.
\<close>

definition matrixRegex_at :: "jsstring \<Rightarrow> (jsstring \<times> jsstring) option" where
  "matrixRegex_at s =
     (if ciPrefix (js ''MATRIX'') s then
        (let r0 = drop 6 s in
         if r0 \<noteq> [] \<and> isWordChar (hd r0) then None
         else
           (let r1 = dropWhile isWhitespace r0;
                body = takeWhile (\<lambda>c. c \<noteq> SEMI) r1
            in if length body = length r1 then None
               else Some (take (length s - length r1 + length body + 1) s,
                          rev (dropWhile isWhitespace (rev body)))))
      else None)"

definition matrixRegex_exec :: "jsstring \<Rightarrow> rmatch option" where
  "matrixRegex_exec txt = mkMatch (regex_search matrixRegex_at False 0 txt)"

text \<open>
  \<open>/^\s*('([^']+)'|(\S+))\s+(.*)$/\<close> on one line. After the leading white space the
  quoted alternative is tried first and the plain one when it fails; each name is
  followed by white space and by a rest without a line terminator. The result is
  \<open>(match[2] || match[3], match[4])\<close>.
\<close>

definition rowTail :: "jsstring \<Rightarrow> jsstring \<Rightarrow> (jsstring \<times> jsstring) option" where
  "rowTail nm r =
     (let rest = dropWhile isWhitespace r
      in if takeWhile isWhitespace r = [] \<or> list_ex isLineTerminator rest then None
         else Some (nm, rest))"

definition rowQuoted :: "jsstring \<Rightarrow> (jsstring \<times> jsstring) option" where
  "rowQuoted s =
     (case s of
        [] \<Rightarrow> None
      | c # r \<Rightarrow>
          if c = QUOTE then
            (let nm = takeWhile (\<lambda>x. x \<noteq> QUOTE) r;
                 r' = dropWhile (\<lambda>x. x \<noteq> QUOTE) r
             in if nm = [] \<or> r' = [] then None else rowTail nm (tl r'))
          else None)"

definition rowPlain :: "jsstring \<Rightarrow> (jsstring \<times> jsstring) option" where
  "rowPlain s =
     (let nm = takeWhile (\<lambda>x. \<not> isWhitespace x) s
      in if nm = [] then None else rowTail nm (dropWhile (\<lambda>x. \<not> isWhitespace x) s))"

definition rowRegex_exec :: "jsstring \<Rightarrow> (jsstring \<times> jsstring) option" where
  "rowRegex_exec ln =
     (let s = dropWhile isWhitespace ln
      in case rowQuoted s of Some r \<Rightarrow> Some r | None \<Rightarrow> rowPlain s)"

text \<open>\<open>hay.indexOf(needle)\<close>: the first index where \<open>needle\<close> starts, or \<open>-1\<close>.\<close>

fun indexOf_from :: "jsstring \<Rightarrow> jsstring \<Rightarrow> nat \<Rightarrow> int" where
  "indexOf_from [] needle i = (if needle = [] then int i else - 1)"
| "indexOf_from (c # cs) needle i =
     (if take (length needle) (c # cs) = needle then int i
      else indexOf_from cs needle (i + 1))"

definition indexOf :: "jsstring \<Rightarrow> jsstring \<Rightarrow> int" where
  "indexOf hay needle = indexOf_from hay needle 0"

definition trim :: "jsstring \<Rightarrow> jsstring" where
  "trim s = rev (dropWhile isWhitespace (rev (dropWhile isWhitespace s)))"

section \<open>The parser\<close>

text \<open>
  The body of the loop \<open>for (let i = startLine; i <= endLine; i++)\<close> of
  \<open>NexusParser.parse\<close> for one line: the taxon it hands to \<open>addTaxon\<close>, or \<open>None\<close>
  where it continues (an empty line, a line that starts with a bracket, a lone
  semicolon) or the row pattern does not match.
\<close>

definition rowTaxon :: "textline \<Rightarrow> Taxon option" where
  "rowTaxon ln =
     (let textLine = trim (text_l ln) in
      if textLine = [] \<or> take 1 textLine = [LBRACK] \<or> textLine = [SEMI] then None
      else
        (case rowRegex_exec (text_l ln) of
           None \<Rightarrow> None
         | Some (nm, rawSeq) \<Rightarrow> Some (Taxon_new nm (Sequence_new rawSeq) (range_l ln))))"

fun parse_lines :: "document \<Rightarrow> nat list \<Rightarrow> Nexus \<Rightarrow> fault + Nexus" where
  "parse_lines d [] nexus = Inr nexus"
| "parse_lines d (i # rest) nexus =
     (case lineAt d i of
        Inl e \<Rightarrow> Inl e
      | Inr ln \<Rightarrow>
          (case rowTaxon ln of
             None \<Rightarrow> parse_lines d rest nexus
           | Some taxon \<Rightarrow> parse_lines d rest (addTaxon nexus taxon)))"

text \<open>
  \<open>NexusParser.parse(document)\<close>. The host reads a negative offset as 0, which is what
  \<open>nat\<close> does.
\<close>

definition parse :: "document \<Rightarrow> fault + Nexus" where
  "parse d =
     (let nexus = Nexus_new; txt = getText d in
      case matrixRegex_exec txt of
        None \<Rightarrow> Inr nexus
      | Some matrixMatch \<Rightarrow>
          (let matrixStartOffset = int (index matrixMatch) + indexOf (m0 matrixMatch) (m1 matrixMatch);
               startLine = line (positionAt d (nat matrixStartOffset));
               endLine = line (positionAt d (nat (matrixStartOffset + int (length (m1 matrixMatch)))))
           in parse_lines d [startLine ..< Suc endLine] nexus))"

section \<open>validateNexus\<close>

text \<open>
  The state of the host that \<open>validateNexus\<close> changes: the diagnostic collection (the
  diagnostics of every uri), the lines of the output channel, and the visible editors
  with their decorations.
\<close>

record host =
  collection :: "jsstring \<rightharpoonup> diagnostic list"
  outputChannel :: "jsstring list"
  visibleTextEditors :: "editor list"

definition getRangeFromMatch :: "document \<Rightarrow> rmatch \<Rightarrow> vrange" where
  "getRangeFromMatch d m =
     (let start = positionAt d (index m);
          stop = positionAt d (index m + length (m0 m))
      in Range start stop)"

text \<open>A value that is a number or \<open>null\<close>, in a template string.\<close>

definition showNullable :: "nat option \<Rightarrow> jsstring" where
  "showNullable v = (case v of None \<Rightarrow> js ''null'' | Some n \<Rightarrow> Number_toString n)"

definition msgNtax :: "nat \<Rightarrow> nat \<Rightarrow> jsstring" where
  "msgNtax definedNtax n =
     js ''Mismatch: NTAX='' @ Number_toString definedNtax @ js '' but MATRIX has '' @
     Number_toString n @ js '' taxa.''"

definition msgNchar :: "nat \<Rightarrow> nat \<Rightarrow> jsstring" where
  "msgNchar definedNchar n =
     js ''Mismatch: NCHAR='' @ Number_toString definedNchar @
     js '' but the longest sequence is '' @ Number_toString n @ js ''.''"

definition msgRow :: "nat \<Rightarrow> nat \<Rightarrow> jsstring" where
  "msgRow len definedNchar =
     js ''Sequence length ('' @ Number_toString len @ js '') does not match NCHAR ('' @
     Number_toString definedNchar @ js '').''"

text \<open>Step 5, the loop \<open>for (const taxon of nexusData.taxa.values())\<close>.\<close>

fun taxa_loop ::
  "nat \<Rightarrow> Taxon list \<Rightarrow> diagnostic list \<Rightarrow> jsstring list \<Rightarrow> diagnostic list \<times> jsstring list" where
  "taxa_loop definedNchar [] diagnostics chan = (diagnostics, chan)"
| "taxa_loop definedNchar (taxon # rest) diagnostics chan =
     (if Taxon_length taxon \<noteq> definedNchar then
        taxa_loop definedNchar rest
          (diagnostics @
             [Diagnostic (lineRange taxon) (msgRow (Taxon_length taxon) definedNchar) Warning])
          (chan @ [js ''   [Warning] Taxon '' @ [QUOTE] @ name taxon @ [QUOTE] @
                   js '' length '' @ Number_toString (Taxon_length taxon) @ js '' != '' @
                   Number_toString definedNchar])
      else taxa_loop definedNchar rest diagnostics chan)"

text \<open>
  Steps 3 to 5 of \<open>validateNexus\<close>, after the scanner, the two header matches and the
  parser have run.
\<close>

definition crossChecks ::
  "document \<Rightarrow> rmatch option \<Rightarrow> rmatch option \<Rightarrow> Nexus \<Rightarrow> diagnostic list \<Rightarrow> jsstring list
     \<Rightarrow> diagnostic list \<times> jsstring list" where
  "crossChecks d ntaxMatch ncharMatch nexusData diagnostics chan =
     (let (diagnostics3, chan3) =
            (case ntaxMatch of
               None \<Rightarrow> (diagnostics, chan)
             | Some m \<Rightarrow>
                 if ntax nexusData \<noteq> parseInt (m1 m) then
                   (diagnostics @
                      [Diagnostic (getRangeFromMatch d m)
                         (msgNtax (parseInt (m1 m)) (ntax nexusData)) Error],
                    chan @ [js ''   [Error] NTAX Mismatch: '' @ Number_toString (parseInt (m1 m)) @
                            js '' vs '' @ Number_toString (ntax nexusData)])
                 else (diagnostics, chan));
          (diagnostics4, chan4) =
            (case ncharMatch of
               None \<Rightarrow> (diagnostics3, chan3)
             | Some m \<Rightarrow>
                 if maxSequenceLength nexusData \<noteq> parseInt (m1 m) then
                   (diagnostics3 @
                      [Diagnostic (getRangeFromMatch d m)
                         (msgNchar (parseInt (m1 m)) (maxSequenceLength nexusData)) Error],
                    chan3 @ [js ''   [Error] NCHAR Mismatch: '' @
                             Number_toString (parseInt (m1 m)) @ js '' vs Max '' @
                             Number_toString (maxSequenceLength nexusData)])
                 else (diagnostics3, chan3))
      in case ncharMatch of
           None \<Rightarrow> (diagnostics4, chan4)
         | Some m \<Rightarrow> taxa_loop (parseInt (m1 m)) (map snd (taxa nexusData)) diagnostics4 chan4)"

text \<open>
  \<open>validateNexus(document, collection, outputChannel)\<close>. \<open>now\<close> is the text that
  \<open>new Date().toLocaleTimeString()\<close> gives at the call. The result is the host after the
  call, or the fault that was thrown together with the host as the throw left it.
\<close>

definition validateNexus :: "document \<Rightarrow> jsstring \<Rightarrow> host \<Rightarrow> (fault \<times> host) + host" where
  "validateNexus d now h =
     (if languageId d \<noteq> js ''nexus'' then Inr h
      else
        (let h1 = h\<lparr>collection := Map.empty\<rparr>;
             txt = getText d;
             diagnostics = [];
             h2 = h1\<lparr>outputChannel :=
                      [js ''['' @ now @ js ''] Validating '' @ fileName d]\<rparr>
         in case validateComments d diagnostics (outputChannel h2) (visibleTextEditors h2) of
              Inl e \<Rightarrow> Inl (e, h2)
            | Inr (diagnostics1, chan1, editors1) \<Rightarrow>
                (let ntaxMatch = ntaxRegex_exec txt;
                     ncharMatch = ncharRegex_exec txt;
                     definedNtax = map_option (\<lambda>m. parseInt (m1 m)) ntaxMatch;
                     definedNchar = map_option (\<lambda>m. parseInt (m1 m)) ncharMatch;
                     chan2 = chan1 @ [js ''   Header: NTAX='' @ showNullable definedNtax @
                                      js '', NCHAR='' @ showNullable definedNchar];
                     h3 = h2\<lparr>outputChannel := chan2, visibleTextEditors := editors1\<rparr>
                 in case parse d of
                      Inl e \<Rightarrow> Inl (e, h3)
                    | Inr nexusData \<Rightarrow>
                        (let chan3 = chan2 @
                               [js ''   Parsed: Found '' @ Number_toString (ntax nexusData) @
                                js '' taxa. Max Length: '' @
                                Number_toString (maxSequenceLength nexusData)];
                             (diagnostics5, chan5) =
                               crossChecks d ntaxMatch ncharMatch nexusData diagnostics1 chan3
                         in Inr (h3\<lparr>outputChannel := chan5,
                                     collection := (collection h1)(uri d \<mapsto> diagnostics5)\<rparr>)))))"

text \<open>What a validation pass published for the document, when it returned.\<close>

definition published :: "document \<Rightarrow> (fault \<times> host) + host \<Rightarrow> diagnostic list option" where
  "published d r = (case r of Inl _ \<Rightarrow> None | Inr h \<Rightarrow> collection h (uri d))"

definition host0 :: host where
  "host0 = \<lparr>collection = Map.empty, outputChannel = [], visibleTextEditors = []\<rparr>"

section \<open>Notions used to state the properties\<close>

text \<open>
  The reading of the input that the spec's section 4.1 describes, in two passes. The
  first pass follows the quote mode alone and names what each character is: a bracket
  read outside quotes opens or closes a comment, a single quote that enters or leaves
  quote mode is a delimiter, an escaped quote inside a label stands for one quoted
  quote, every other character inside a label is quoted data, and every other
  character outside quotes is plain data.
\<close>

datatype token = Open | Close | Delim | Lit jschar | Quoted jschar

fun tokens :: "bool \<Rightarrow> jsstring \<Rightarrow> token list" where
  "tokens inQ [] = []"
| "tokens inQ (c # rest) =
     (if inQ then
        (if c = QUOTE then
           (if take 1 rest = [QUOTE] then Quoted QUOTE # tokens True (drop 1 rest)
            else Delim # tokens False rest)
         else Quoted c # tokens True rest)
      else if c = QUOTE then Delim # tokens True rest
      else if c = LBRACK then Open # tokens False rest
      else if c = RBRACK then Close # tokens False rest
      else Lit c # tokens False rest)"

text \<open>
  The second pass follows the comment depth alone: the text outside comments is what
  is read at depth 0, a delimiter as the quote character; a closing bracket at depth 0
  leaves the depth at 0.
\<close>

fun outside :: "nat \<Rightarrow> token list \<Rightarrow> jsstring" where
  "outside depth [] = []"
| "outside depth (Open # ts) = outside (depth + 1) ts"
| "outside depth (Close # ts) = outside (depth - 1) ts"
| "outside depth (Delim # ts) = (if depth = 0 then QUOTE # outside depth ts else outside depth ts)"
| "outside depth (Lit c # ts) = (if depth = 0 then c # outside depth ts else outside depth ts)"
| "outside depth (Quoted c # ts) = (if depth = 0 then c # outside depth ts else outside depth ts)"

text \<open>The comment depth after a run of tokens.\<close>

fun depthAfter :: "nat \<Rightarrow> token list \<Rightarrow> nat" where
  "depthAfter depth [] = depth"
| "depthAfter depth (Open # ts) = depthAfter (depth + 1) ts"
| "depthAfter depth (Close # ts) = depthAfter (depth - 1) ts"
| "depthAfter depth (Delim # ts) = depthAfter depth ts"
| "depthAfter depth (Lit c # ts) = depthAfter depth ts"
| "depthAfter depth (Quoted c # ts) = depthAfter depth ts"

text \<open>
  The body of a closed comment span: every bracket opened in it is closed in it, and
  it closes none but its own. \<open>k\<close> counts the brackets of the body that are open.
\<close>

fun balanced :: "nat \<Rightarrow> token list \<Rightarrow> bool" where
  "balanced k [] = (k = 0)"
| "balanced k (Open # ts) = balanced (k + 1) ts"
| "balanced k (Close # ts) = (k > 0 \<and> balanced (k - 1) ts)"
| "balanced k (Delim # ts) = balanced k ts"
| "balanced k (Lit c # ts) = balanced k ts"
| "balanced k (Quoted c # ts) = balanced k ts"

text \<open>
  What follows a bracket that is never closed: read from \<open>k\<close> open brackets, the count
  never returns to 0.
\<close>

fun staysOpen :: "nat \<Rightarrow> token list \<Rightarrow> bool" where
  "staysOpen k [] = (k > 0)"
| "staysOpen k (Open # ts) = (k > 0 \<and> staysOpen (k + 1) ts)"
| "staysOpen k (Close # ts) = (k > 0 \<and> staysOpen (k - 1) ts)"
| "staysOpen k (Delim # ts) = (k > 0 \<and> staysOpen k ts)"
| "staysOpen k (Lit c # ts) = (k > 0 \<and> staysOpen k ts)"
| "staysOpen k (Quoted c # ts) = (k > 0 \<and> staysOpen k ts)"

text \<open>A quoted label: the content between two single quotes, each quote of it doubled.\<close>

definition quoted :: "jsstring \<Rightarrow> jsstring" where
  "quoted content =
     QUOTE # concat (map (\<lambda>c. if c = QUOTE then [QUOTE, QUOTE] else [c]) content) @ [QUOTE]"

text \<open>What the scanner adds to an empty diagnostics array, or the fault it throws.\<close>

definition scannerDiagnostics :: "document \<Rightarrow> fault + diagnostic list" where
  "scannerDiagnostics d =
     (case validateComments d [] [] [] of
        Inl e \<Rightarrow> Inl e
      | Inr (diagnostics, _, _) \<Rightarrow> Inr diagnostics)"

text \<open>The diagnostics of steps 3, 4 and 5, each on its own.\<close>

definition ntaxDiagnostics :: "document \<Rightarrow> rmatch option \<Rightarrow> Nexus \<Rightarrow> diagnostic list" where
  "ntaxDiagnostics d ntaxMatch nexusData =
     (case ntaxMatch of
        None \<Rightarrow> []
      | Some m \<Rightarrow>
          if ntax nexusData \<noteq> parseInt (m1 m)
          then [Diagnostic (getRangeFromMatch d m)
                  (msgNtax (parseInt (m1 m)) (ntax nexusData)) Error]
          else [])"

definition ncharDiagnostics :: "document \<Rightarrow> rmatch option \<Rightarrow> Nexus \<Rightarrow> diagnostic list" where
  "ncharDiagnostics d ncharMatch nexusData =
     (case ncharMatch of
        None \<Rightarrow> []
      | Some m \<Rightarrow>
          if maxSequenceLength nexusData \<noteq> parseInt (m1 m)
          then [Diagnostic (getRangeFromMatch d m)
                  (msgNchar (parseInt (m1 m)) (maxSequenceLength nexusData)) Error]
          else [])"

definition rowWarning :: "nat \<Rightarrow> Taxon \<Rightarrow> diagnostic" where
  "rowWarning definedNchar taxon =
     Diagnostic (lineRange taxon) (msgRow (Taxon_length taxon) definedNchar) Warning"

definition rowDiagnostics :: "rmatch option \<Rightarrow> Nexus \<Rightarrow> diagnostic list" where
  "rowDiagnostics ncharMatch nexusData =
     (case ncharMatch of
        None \<Rightarrow> []
      | Some m \<Rightarrow>
          map (rowWarning (parseInt (m1 m)))
            (filter (\<lambda>taxon. Taxon_length taxon \<noteq> parseInt (m1 m))
               (map snd (taxa nexusData))))"

text \<open>
  The diagnostics of one pass as a function of the document alone: the scanner's, then
  the three cross-checks, or the fault of the scanner or of the parser.
\<close>

definition diagnosticsOf :: "document \<Rightarrow> fault + diagnostic list" where
  "diagnosticsOf d =
     (case scannerDiagnostics d of
        Inl e \<Rightarrow> Inl e
      | Inr structural \<Rightarrow>
          (case parse d of
             Inl e \<Rightarrow> Inl e
           | Inr nexusData \<Rightarrow>
               Inr (structural @
                    ntaxDiagnostics d (ntaxRegex_exec (getText d)) nexusData @
                    ncharDiagnostics d (ncharRegex_exec (getText d)) nexusData @
                    rowDiagnostics (ncharRegex_exec (getText d)) nexusData)))"

text \<open>The four kinds of diagnostic, told apart by how the message starts.\<close>

definition startsWith :: "jsstring \<Rightarrow> jsstring \<Rightarrow> bool" where
  "startsWith s p \<longleftrightarrow> take (length p) s = p"

definition isStructural :: "diagnostic \<Rightarrow> bool" where
  "isStructural dg \<longleftrightarrow>
     message dg = msgUnexpected \<or> message dg = msgUnclosedQuote \<or>
     message dg = msgUnclosedComment"

definition isNtaxMismatch :: "diagnostic \<Rightarrow> bool" where
  "isNtaxMismatch dg \<longleftrightarrow>
     severity dg = Error \<and> startsWith (message dg) (js ''Mismatch: NTAX='')"

definition isNcharMismatch :: "diagnostic \<Rightarrow> bool" where
  "isNcharMismatch dg \<longleftrightarrow>
     severity dg = Error \<and> startsWith (message dg) (js ''Mismatch: NCHAR='')"

definition isRowWarning :: "diagnostic \<Rightarrow> bool" where
  "isRowWarning dg \<longleftrightarrow>
     severity dg = Warning \<and> startsWith (message dg) (js ''Sequence length ('')"

text \<open>
  A Matrix Model is well formed when every key is the name of its taxon and no key
  occurs twice, as in a \<open>Map\<close> filled by \<open>addTaxon\<close>.
\<close>

definition wellFormed :: "Nexus \<Rightarrow> bool" where
  "wellFormed nexus \<longleftrightarrow>
     distinct (map fst (taxa nexus)) \<and> list_all (\<lambda>(k, taxon). name taxon = k) (taxa nexus)"

text \<open>A taxon after the sequences of later rows of the same name were appended.\<close>

definition extended :: "Taxon \<Rightarrow> Taxon list \<Rightarrow> Taxon" where
  "extended taxon later =
     taxon\<lparr>sequence := \<lparr>bases = bases (sequence taxon) @
                                  concat (map (\<lambda>t. bases (sequence t)) later)\<rparr>\<rparr>"

text \<open>Documents for the concrete instances: the language is \<open>nexus\<close>, lines end with a line feed.\<close>

definition nexusDocument :: "jsstring \<Rightarrow> document" where
  "nexusDocument txt = textDocument (js ''nexus'') (js ''example.nex'') txt"

definition interleavedText :: jsstring where
  "interleavedText =
     js ''NCHAR=4 MATRIX'' @ [LF] @ js ''A ACGT'' @ [LF] @ js ''B ACGT'' @ [LF] @
     js ''A TTTT'' @ [LF] @ js '';''"

definition headerText :: jsstring where
  "headerText =
     js ''#NEXUS'' @ [LF] @ js ''DIMENSIONS NTAX=3;'' @ [LF] @ js ''MATRIX'' @ [LF] @
     js ''A ACGT'' @ [LF] @ js ''B ACGT'' @ [LF] @ js '';''"

definition allKindsText :: jsstring where
  "allKindsText =
     js '']NTAX=3 NCHAR=5 MATRIX'' @ [LF] @ js ''A ACGT'' @ [LF] @ js ''B AC'' @ [LF] @ js '';''"

section \<open>Properties of the stripping pass\<close>

lemma clean_loop_escape:
  "inQuote s \<Longrightarrow> clean_loop (QUOTE # QUOTE # cs) s =
     clean_loop cs (if stack s = 0 then s\<lparr>clean := clean s @ [QUOTE]\<rparr> else s)"
  by simp

lemma clean_loop_quote:
  "\<not> (inQuote s \<and> cs \<noteq> [] \<and> hd cs = QUOTE) \<Longrightarrow> clean_loop (QUOTE # cs) s =
     clean_loop cs (if stack s = 0 then s\<lparr>inQuote := \<not> inQuote s, clean := clean s @ [QUOTE]\<rparr>
              else s\<lparr>inQuote := \<not> inQuote s\<rparr>)"
  by (simp only: clean_loop.simps(2) simp_thms if_True if_False)

lemma clean_loop_open:
  "\<not> inQuote s \<Longrightarrow> clean_loop (LBRACK # cs) s = clean_loop cs (s\<lparr>stack := stack s + 1\<rparr>)"
  by simp

lemma clean_loop_close:
  "\<not> inQuote s \<Longrightarrow> clean_loop (RBRACK # cs) s =
     clean_loop cs (if stack s > 0 then s\<lparr>stack := stack s - 1\<rparr> else s)"
  by simp

lemma clean_loop_other:
  "c \<noteq> QUOTE \<Longrightarrow> inQuote s \<or> (c \<noteq> LBRACK \<and> c \<noteq> RBRACK) \<Longrightarrow>
   clean_loop (c # cs) s = clean_loop cs (if stack s = 0 then s\<lparr>clean := clean s @ [c]\<rparr> else s)"
  by auto

lemma clean_loop_outside:
  "clean (clean_loop str s) = clean s @ outside (stack s) (tokens (inQuote s) str)"
proof (induction str s rule: clean_loop.induct)
  case (1 s)
  then show ?case by simp
next
  case (2 x xs s)
  consider (esc) "x = QUOTE" "inQuote s \<and> xs \<noteq> [] \<and> hd xs = QUOTE"
    | (quo) "x = QUOTE" "\<not> (inQuote s \<and> xs \<noteq> [] \<and> hd xs = QUOTE)"
    | (opn) "x \<noteq> QUOTE" "\<not> inQuote s \<and> x = LBRACK"
    | (cls) "x \<noteq> QUOTE" "\<not> (\<not> inQuote s \<and> x = LBRACK)" "\<not> inQuote s \<and> x = RBRACK"
    | (other) "x \<noteq> QUOTE" "\<not> (\<not> inQuote s \<and> x = LBRACK)" "\<not> (\<not> inQuote s \<and> x = RBRACK)"
    by blast
  then show ?case
  proof cases
    case esc
    then obtain ys where xs: "xs = QUOTE # ys" by (cases xs) auto
    from "2.IH"(1)[OF esc] esc xs show ?thesis
      by (simp del: clean_loop.simps add: clean_loop_escape)
  next
    case quo
    then have t1: "inQuote s \<Longrightarrow> take 1 xs \<noteq> [QUOTE]" by (cases xs) auto
    from "2.IH"(2)[OF quo] quo(1) t1 show ?thesis
      by (cases "inQuote s") (simp_all del: clean_loop.simps add: clean_loop_quote[OF quo(2)])
  next
    case opn
    from "2.IH"(3)[OF opn] opn show ?thesis
      by (simp del: clean_loop.simps add: clean_loop_open)
  next
    case cls
    from "2.IH"(4)[OF cls] cls show ?thesis
      by (simp del: clean_loop.simps add: clean_loop_close)
  next
    case other
    from other have o2: "inQuote s \<or> (x \<noteq> LBRACK \<and> x \<noteq> RBRACK)" by blast
    from "2.IH"(5)[OF other] other show ?thesis
      by (cases "inQuote s") (simp_all del: clean_loop.simps add: clean_loop_other[OF other(1) o2])
  qed
qed

lemma Sequence_clean_outside:
  "Sequence_clean str = filter (\<lambda>c. \<not> isWhitespace c) (outside 0 (tokens False str))"
  by (simp add: Sequence_clean_def clean_loop_outside scan0_def)

lemma outside_append:
  "outside d (pre @ ts) = outside d pre @ outside (depthAfter d pre) ts"
  by (induction d pre rule: outside.induct) simp_all

lemma outside_balanced:
  "balanced k body \<Longrightarrow>
   outside (Suc d + k) (body @ rest) = outside (Suc d) rest \<and>
   depthAfter (Suc d + k) (body @ rest) = depthAfter (Suc d) rest"
proof (induction k body arbitrary: d rule: balanced.induct)
  case (1 k)
  then show ?case by simp
next
  case (2 k ts)
  from "2.IH"[of d] "2.prems" show ?case by simp
next
  case (3 k ts)
  then have k: "k > 0" and b: "balanced (k - 1) ts" by simp_all
  from "3.IH"[OF b, of d] k show ?case by simp
next
  case (4 k ts)
  then show ?case by simp
next
  case (5 k v ts)
  then show ?case by simp
next
  case (6 k v ts)
  then show ?case by simp
qed

lemma outside_staysOpen: "staysOpen k body \<Longrightarrow> outside (d + k) body = []"
proof (induction k body arbitrary: d rule: staysOpen.induct)
  case (1 k)
  then show ?case by simp
next
  case (2 k ts)
  from "2.IH"[of d] "2.prems" show ?case by (simp add: add.assoc)
next
  case (3 k ts)
  then have k: "k > 0" and b: "staysOpen (k - 1) ts" by simp_all
  have "d + k - 1 = d + (k - 1)" using k by simp
  with "3.IH"[OF b, of d] show ?case by simp
next
  case (4 k ts)
  then show ?case by simp
next
  case (5 k v ts)
  then show ?case by simp
next
  case (6 k v ts)
  then show ?case by simp
qed

lemma outside_span:
  "balanced 0 body \<Longrightarrow>
   outside d (pre @ Open # body @ Close # post) = outside d (pre @ post)"
  using outside_balanced[of 0 body "depthAfter d pre" "Close # post"]
  by (simp add: outside_append)

lemma outside_unclosed:
  "staysOpen 1 body \<Longrightarrow> outside d (pre @ Open # body) = outside d pre"
  using outside_staysOpen[of 1 body "depthAfter d pre"]
  by (simp add: outside_append)

lemma outside_stray:
  "depthAfter d pre = 0 \<Longrightarrow> outside d (pre @ Close # post) = outside d (pre @ post)"
  by (simp add: outside_append)

lemma outside_chars:
  "c \<in> set (outside d ts) \<Longrightarrow>
   (c = QUOTE \<and> Delim \<in> set ts) \<or> Lit c \<in> set ts \<or> Quoted c \<in> set ts"
  by (induction d ts rule: outside.induct) (auto split: if_splits)

lemma tokens_Lit:
  "Lit c \<in> set (tokens inQ str) \<Longrightarrow> c \<noteq> QUOTE \<and> c \<noteq> LBRACK \<and> c \<noteq> RBRACK"
  by (induction inQ str rule: tokens.induct) (auto split: if_splits)

lemma clean_loop_label:
  "inQuote s \<Longrightarrow> take 1 rest \<noteq> [QUOTE] \<Longrightarrow>
   clean_loop (concat (map (\<lambda>c. if c = QUOTE then [QUOTE, QUOTE] else [c]) content) @
               QUOTE # rest) s =
   clean_loop rest
     (s\<lparr>inQuote := False,
        clean := clean s @ (if stack s = 0 then content @ [QUOTE] else [])\<rparr>)"
proof (induction content arbitrary: s)
  case Nil
  from Nil.prems(2) have ne: "\<not> (inQuote s \<and> rest \<noteq> [] \<and> hd rest = QUOTE)"
    by (cases rest) auto
  from Nil.prems(1) show ?case
    by (simp del: clean_loop.simps add: clean_loop_quote[OF ne])
next
  case (Cons c content)
  show ?case
  proof (cases "c = QUOTE")
    case True
    let ?s = "if stack s = 0 then s\<lparr>clean := clean s @ [QUOTE]\<rparr> else s"
    have q: "inQuote ?s" using Cons.prems(1) by simp
    from Cons.IH[OF q Cons.prems(2)] True Cons.prems(1) show ?thesis
      by (simp del: clean_loop.simps add: clean_loop_escape)
  next
    case False
    let ?s = "if stack s = 0 then s\<lparr>clean := clean s @ [c]\<rparr> else s"
    have q: "inQuote ?s" using Cons.prems(1) by simp
    have o2: "inQuote s \<or> (c \<noteq> LBRACK \<and> c \<noteq> RBRACK)" using Cons.prems(1) by simp
    from Cons.IH[OF q Cons.prems(2)] False show ?thesis
      by (simp del: clean_loop.simps add: clean_loop_other[OF False o2])
  qed
qed

lemma clean_loop_quoted:
  assumes "\<not> inQuote s" "take 1 rest \<noteq> [QUOTE]"
  shows "clean_loop (quoted content @ rest) s =
         clean_loop rest
           (s\<lparr>clean := clean s @ (if stack s = 0 then QUOTE # content @ [QUOTE] else [])\<rparr>)"
proof -
  let ?body = "concat (map (\<lambda>c. if c = QUOTE then [QUOTE, QUOTE] else [c]) content)"
  let ?s = "if stack s = 0 then s\<lparr>inQuote := \<not> inQuote s, clean := clean s @ [QUOTE]\<rparr>
            else s\<lparr>inQuote := \<not> inQuote s\<rparr>"
  have ne: "\<not> (inQuote s \<and> ?body @ QUOTE # rest \<noteq> [] \<and> hd (?body @ QUOTE # rest) = QUOTE)"
    using assms(1) by simp
  have "clean_loop (quoted content @ rest) s = clean_loop (?body @ QUOTE # rest) ?s"
    by (simp del: clean_loop.simps add: quoted_def clean_loop_quote[OF ne])
  also have "\<dots> = clean_loop rest
      (?s\<lparr>inQuote := False,
          clean := clean ?s @ (if stack ?s = 0 then content @ [QUOTE] else [])\<rparr>)"
    by (rule clean_loop_label) (use assms in simp_all)
  also have "\<dots> = clean_loop rest
      (s\<lparr>clean := clean s @ (if stack s = 0 then QUOTE # content @ [QUOTE] else [])\<rparr>)"
    using assms(1) by (cases s) simp
  finally show ?thesis .
qed

text \<open>
  C2 (as amended). For every input string the output of the stripping pass is the text
  outside comments, without white space. Every comment span is removed, whatever it
  holds: a span that is closed (an opening bracket, a body whose brackets are balanced,
  the closing bracket) and a span that is never closed (an opening bracket and all that
  follows); a bracket opens or closes a comment only when it is read outside quotes.
  The structural single quotes of a quoted label outside comments are kept in the
  output. An escaped quote inside the label does not toggle the quote state, which is
  the same after the label as before, and is preserved as exactly one quote.
\<close>

theorem clean_comment_spans_and_quotes:
  "Sequence_clean str = filter (\<lambda>c. \<not> isWhitespace c) (outside 0 (tokens False str)) \<and>
   (tokens False str = pre @ Open # body @ Close # post \<and> balanced 0 body \<longrightarrow>
      Sequence_clean str = filter (\<lambda>c. \<not> isWhitespace c) (outside 0 (pre @ post))) \<and>
   (tokens False str = pre @ Open # body \<and> staysOpen 1 body \<longrightarrow>
      Sequence_clean str = filter (\<lambda>c. \<not> isWhitespace c) (outside 0 pre)) \<and>
   (\<not> inQuote s \<and> take 1 rest \<noteq> [QUOTE] \<longrightarrow>
      clean_loop (quoted content @ rest) s =
      clean_loop rest
        (s\<lparr>clean := clean s @ (if stack s = 0 then QUOTE # content @ [QUOTE] else [])\<rparr>))"
proof (intro conjI impI)
  show "Sequence_clean str = filter (\<lambda>c. \<not> isWhitespace c) (outside 0 (tokens False str))"
    by (rule Sequence_clean_outside)
next
  assume "tokens False str = pre @ Open # body @ Close # post \<and> balanced 0 body"
  then show "Sequence_clean str = filter (\<lambda>c. \<not> isWhitespace c) (outside 0 (pre @ post))"
    by (simp add: Sequence_clean_outside outside_span)
next
  assume "tokens False str = pre @ Open # body \<and> staysOpen 1 body"
  then show "Sequence_clean str = filter (\<lambda>c. \<not> isWhitespace c) (outside 0 pre)"
    by (simp add: Sequence_clean_outside outside_unclosed)
next
  assume "\<not> inQuote s \<and> take 1 rest \<noteq> [QUOTE]"
  then show "clean_loop (quoted content @ rest) s =
      clean_loop rest
        (s\<lparr>clean := clean s @ (if stack s = 0 then QUOTE # content @ [QUOTE] else [])\<rparr>)"
    using clean_loop_quoted[of s rest content] by blast
qed

theorem clean_comment_spans_and_quotes_witness:
  "Sequence_clean (js ''AC[ it'' @ [QUOTE, QUOTE] @ js ''s [x] ]GT  TT'') = js ''ACGTTT'' \<and>
   Sequence_clean (js ''A[b'' @ [QUOTE] @ js ''c]d'') = js ''A'' \<and>
   Sequence_clean (quoted (js ''it'' @ [QUOTE] @ js ''s[1]'')) =
     [QUOTE] @ js ''it'' @ [QUOTE] @ js ''s[1]'' @ [QUOTE]"
proof -
  let ?a = "js ''AC[ it'' @ [QUOTE, QUOTE] @ js ''s [x] ]GT  TT''"
  have ta: "tokens False ?a =
      [Lit 65, Lit 67] @ Open #
      [Lit 32, Lit 105, Lit 116, Delim, Delim, Lit 115, Lit 32, Open, Lit 120, Close, Lit 32] @
      Close # [Lit 71, Lit 84, Lit 32, Lit 32, Lit 84, Lit 84]"
    by (simp add: js_def)
  have ba: "balanced 0
      [Lit 32, Lit 105, Lit 116, Delim, Delim, Lit 115, Lit 32, Open, Lit 120, Close, Lit 32]"
    by simp
  have a: "Sequence_clean ?a = js ''ACGTTT''"
    using clean_comment_spans_and_quotes[where str = ?a and pre = "[Lit 65, Lit 67]"
        and body = "[Lit 32, Lit 105, Lit 116, Delim, Delim, Lit 115, Lit 32, Open, Lit 120,
                     Close, Lit 32]"
        and post = "[Lit 71, Lit 84, Lit 32, Lit 32, Lit 84, Lit 84]"] ta ba
    by (simp add: js_def isWhitespace_def)
  let ?b = "js ''A[b'' @ [QUOTE] @ js ''c]d''"
  have tb: "tokens False ?b = [Lit 65] @ Open # [Lit 98, Delim, Quoted 99, Quoted 93, Quoted 100]"
    by (simp add: js_def)
  have sb: "staysOpen 1 [Lit 98, Delim, Quoted 99, Quoted 93, Quoted 100]" by simp
  have b: "Sequence_clean ?b = js ''A''"
    using clean_comment_spans_and_quotes[where str = ?b and pre = "[Lit 65]"
        and body = "[Lit 98, Delim, Quoted 99, Quoted 93, Quoted 100]"] tb sb
    by (simp add: js_def isWhitespace_def)
  let ?c = "js ''it'' @ [QUOTE] @ js ''s[1]''"
  have "clean_loop (quoted ?c @ []) scan0 =
        clean_loop [] (scan0\<lparr>clean := clean scan0 @
           (if stack scan0 = 0 then QUOTE # ?c @ [QUOTE] else [])\<rparr>)"
    using clean_comment_spans_and_quotes[where s = scan0 and rest = "[]" and content = ?c]
    by (simp add: scan0_def)
  then have c: "Sequence_clean (quoted ?c) = [QUOTE] @ ?c @ [QUOTE]"
    by (simp add: Sequence_clean_def scan0_def) (simp add: js_def isWhitespace_def)
  from a b c show ?thesis by simp
qed

text \<open>
  The delimiter quotes are not removed: the quoted label \<open>'A'\<close> is cleaned to itself.
\<close>

theorem clean_keeps_delimiter_quotes:
  "Sequence_clean ([QUOTE] @ js ''A'' @ [QUOTE]) = [QUOTE] @ js ''A'' @ [QUOTE] \<and>
   QUOTE \<in> set (Sequence_clean ([QUOTE] @ js ''A'' @ [QUOTE]))"
  by (simp add: Sequence_clean_def scan0_def js_def isWhitespace_def)

text \<open>
  C10 (as amended). The cleaning function is total (it is defined by a terminating
  recursion) and its output never holds a white space character. A bracket is in the
  output only where the input holds that bracket inside a quoted label, where it is
  data. All text after a bracket that opens a comment which is never closed is
  dropped, and a closing bracket met at depth 0 outside quotes is dropped without
  effect: the output is that of the text without it.
\<close>

theorem clean_output_shape:
  "(\<forall>c \<in> set (Sequence_clean str). \<not> isWhitespace c) \<and>
   ((b = LBRACK \<or> b = RBRACK) \<and> b \<in> set (Sequence_clean str) \<longrightarrow>
      Quoted b \<in> set (tokens False str)) \<and>
   (tokens False str = pre @ Open # body \<and> staysOpen 1 body \<longrightarrow>
      Sequence_clean str = filter (\<lambda>c. \<not> isWhitespace c) (outside 0 pre)) \<and>
   (tokens False str = pre @ Close # post \<and> depthAfter 0 pre = 0 \<longrightarrow>
      Sequence_clean str = filter (\<lambda>c. \<not> isWhitespace c) (outside 0 (pre @ post)))"
proof (intro conjI impI)
  show "\<forall>c \<in> set (Sequence_clean str). \<not> isWhitespace c"
    by (simp add: Sequence_clean_def)
next
  assume a: "(b = LBRACK \<or> b = RBRACK) \<and> b \<in> set (Sequence_clean str)"
  then have "b \<in> set (outside 0 (tokens False str))"
    by (simp add: Sequence_clean_outside)
  from outside_chars[OF this] a tokens_Lit[of b False str]
  show "Quoted b \<in> set (tokens False str)" by auto
next
  assume "tokens False str = pre @ Open # body \<and> staysOpen 1 body"
  then show "Sequence_clean str = filter (\<lambda>c. \<not> isWhitespace c) (outside 0 pre)"
    by (simp add: Sequence_clean_outside outside_unclosed)
next
  assume "tokens False str = pre @ Close # post \<and> depthAfter 0 pre = 0"
  then show "Sequence_clean str = filter (\<lambda>c. \<not> isWhitespace c) (outside 0 (pre @ post))"
    by (simp add: Sequence_clean_outside outside_stray)
qed

theorem clean_output_shape_witness:
  "Quoted LBRACK \<in> set (tokens False [QUOTE, LBRACK, RBRACK, QUOTE]) \<and>
   Sequence_clean (js ''AC[[x]GT'') = js ''AC'' \<and>
   Sequence_clean (js ''AC]G T'') = js ''ACGT''"
proof -
  have h1: "(LBRACK = LBRACK \<or> LBRACK = RBRACK) \<and>
            LBRACK \<in> set (Sequence_clean [QUOTE, LBRACK, RBRACK, QUOTE])"
    by (simp add: Sequence_clean_def scan0_def isWhitespace_def)
  have a: "Quoted LBRACK \<in> set (tokens False [QUOTE, LBRACK, RBRACK, QUOTE])"
    using clean_output_shape[where b = LBRACK and str = "[QUOTE, LBRACK, RBRACK, QUOTE]"] h1
    by blast
  have tb: "tokens False (js ''AC[[x]GT'') =
      [Lit 65, Lit 67] @ Open # [Open, Lit 120, Close, Lit 71, Lit 84]"
    by (simp add: js_def)
  have sb: "staysOpen 1 [Open, Lit 120, Close, Lit 71, Lit 84]" by simp
  have b: "Sequence_clean (js ''AC[[x]GT'') = js ''AC''"
    using clean_output_shape[where str = "js ''AC[[x]GT''" and pre = "[Lit 65, Lit 67]"
        and body = "[Open, Lit 120, Close, Lit 71, Lit 84]"] tb sb
    by (simp add: js_def isWhitespace_def)
  have tc: "tokens False (js ''AC]G T'') = [Lit 65, Lit 67] @ Close # [Lit 71, Lit 32, Lit 84]"
    by (simp add: js_def)
  have dc: "depthAfter 0 [Lit 65, Lit 67] = 0" by simp
  have c: "Sequence_clean (js ''AC]G T'') = js ''ACGT''"
    using clean_output_shape[where str = "js ''AC]G T''" and pre = "[Lit 65, Lit 67]"
        and post = "[Lit 71, Lit 32, Lit 84]"] tc dc
    by (simp add: js_def isWhitespace_def)
  from a b c show ?thesis by simp
qed

text \<open>Brackets inside a quoted label reach the output: \<open>'[]'\<close> is cleaned to itself.\<close>

theorem clean_keeps_quoted_brackets:
  "LBRACK \<in> set (Sequence_clean [QUOTE, LBRACK, RBRACK, QUOTE]) \<and>
   RBRACK \<in> set (Sequence_clean [QUOTE, LBRACK, RBRACK, QUOTE])"
  by (simp add: Sequence_clean_def scan0_def isWhitespace_def)

section \<open>Properties of the scanner\<close>

lemma bracketDiagnostic_Inr:
  "bracketDiagnostic d i msg =
     Inr (Diagnostic (Range (positionAt d i)
            (Position (line (positionAt d i)) (character (positionAt d i) + 1))) msg Error)"
  by (simp add: bracketDiagnostic_def translate_def Let_def nat_add_distrib)

lemma comments_loop_shape:
  "\<exists>stk' inQ' X. (\<forall>ds. comments_loop d t i stk inQ ds = Inr (stk', inQ', ds @ X)) \<and>
     list_all isStructural X"
proof (induction t arbitrary: i stk inQ rule: length_induct)
  case (1 t)
  show ?case
  proof (cases t)
    case Nil
    then show ?thesis by (intro exI[of _ stk] exI[of _ inQ] exI[of _ "[]"]) simp
  next
    case (Cons c cs)
    have IH: "\<And>u j sk q. length u \<le> length cs \<Longrightarrow>
       \<exists>stk' inQ' X. (\<forall>ds. comments_loop d u j sk q ds = Inr (stk', inQ', ds @ X)) \<and>
         list_all isStructural X"
      using 1 Cons by (simp add: less_Suc_eq_le)
    have tl_le: "length (tl cs) \<le> length cs" by simp
    consider (esc) "c = QUOTE" "inQ \<and> cs \<noteq> [] \<and> hd cs = QUOTE"
      | (quo) "c = QUOTE" "\<not> (inQ \<and> cs \<noteq> [] \<and> hd cs = QUOTE)"
      | (inq) "c \<noteq> QUOTE" "inQ"
      | (opn) "c \<noteq> QUOTE" "\<not> inQ" "c = LBRACK"
      | (unexp) "c \<noteq> QUOTE" "\<not> inQ" "c \<noteq> LBRACK" "c = RBRACK" "stk = []"
      | (cls) "c \<noteq> QUOTE" "\<not> inQ" "c \<noteq> LBRACK" "c = RBRACK" "stk \<noteq> []"
      | (other) "c \<noteq> QUOTE" "\<not> inQ" "c \<noteq> LBRACK" "c \<noteq> RBRACK"
      by blast
    then show ?thesis
    proof cases
      case esc
      from IH[OF tl_le, of "i + 2" stk inQ] esc Cons show ?thesis by simp
    next
      case quo
      from IH[OF order_refl, of "i + 1" stk "\<not> inQ"] quo Cons show ?thesis
        by (simp only: comments_loop.simps if_True if_False simp_thms)
    next
      case inq
      from IH[OF order_refl, of "i + 1" stk inQ] inq Cons show ?thesis by simp
    next
      case opn
      from IH[OF order_refl, of "i + 1" "stk @ [i]" inQ] opn Cons show ?thesis by simp
    next
      case unexp
      from IH[OF order_refl, of "i + 1" stk inQ]
      obtain stk' inQ' X where
        X: "\<And>ds. comments_loop d cs (i + 1) stk inQ ds = Inr (stk', inQ', ds @ X)"
        and sX: "list_all isStructural X" by blast
      let ?dg = "Diagnostic (Range (positionAt d i)
            (Position (line (positionAt d i)) (character (positionAt d i) + 1))) msgUnexpected Error"
      have "\<forall>ds. comments_loop d t i stk inQ ds = Inr (stk', inQ', ds @ (?dg # X))"
        using unexp Cons X by (simp add: bracketDiagnostic_Inr)
      moreover have "list_all isStructural (?dg # X)"
        using sX by (simp add: isStructural_def)
      ultimately show ?thesis by blast
    next
      case cls
      from IH[OF order_refl, of "i + 1" "butlast stk" inQ] cls Cons show ?thesis by simp
    next
      case other
      from IH[OF order_refl, of "i + 1" stk inQ] other Cons show ?thesis by simp
    qed
  qed
qed

lemma unclosed_loop_shape:
  "\<exists>Y. (\<forall>ds. unclosed_loop d stk ds = Inr (ds @ Y)) \<and> list_all isStructural Y \<and>
     length Y = length stk"
proof (induction stk)
  case Nil
  then show ?case by (intro exI[of _ "[]"]) simp
next
  case (Cons i stk)
  then obtain Y where Y: "\<And>ds. unclosed_loop d stk ds = Inr (ds @ Y)"
    and sY: "list_all isStructural Y" and lY: "length Y = length stk" by blast
  let ?dg = "Diagnostic (Range (positionAt d i)
        (Position (line (positionAt d i)) (character (positionAt d i) + 1))) msgUnclosedComment Error"
  have "\<forall>ds. unclosed_loop d (i # stk) ds = Inr (ds @ (?dg # Y))"
    using Y by (simp add: bracketDiagnostic_Inr)
  moreover have "list_all isStructural (?dg # Y)" using sY by (simp add: isStructural_def)
  ultimately show ?case using lY by (intro exI[of _ "?dg # Y"]) simp
qed

text \<open>
  The scanner either throws for every diagnostics array, channel and editor list, or
  appends the same structural diagnostics to every array.
\<close>

lemma validateComments_shape:
  "(\<forall>ds ch eds. validateComments d ds ch eds = Inl IllegalArgument) \<or>
   (\<exists>X. list_all isStructural X \<and>
      (\<forall>ds ch eds. \<exists>ch' eds'. validateComments d ds ch eds = Inr (ds @ X, ch', eds')))"
proof -
  obtain stk inQ X where
    X: "\<And>ds. comments_loop d (getText d) 0 [] False ds = Inr (stk, inQ, ds @ X)"
    and sX: "list_all isStructural X"
    using comments_loop_shape[of d "getText d" 0 "[]" False] by blast
  obtain Y where Y: "\<And>ds. unclosed_loop d stk ds = Inr (ds @ Y)"
    and sY: "list_all isStructural Y"
    using unclosed_loop_shape[of d stk] by blast
  let ?last = "positionAt d (length (getText d))"
  show ?thesis
  proof (cases "inQ")
    case False
    have "\<forall>ds ch eds. \<exists>ch' eds'. validateComments d ds ch eds = Inr (ds @ (X @ Y), ch', eds')"
      using False X Y by (cases "stk = []") (simp_all add: validateComments_def Let_def)
    moreover have "list_all isStructural (X @ Y)" using sX sY by simp
    ultimately show ?thesis by blast
  next
    case True
    show ?thesis
    proof (cases "character ?last = 0")
      case z: True
      have "\<forall>ds ch eds. validateComments d ds ch eds = Inl IllegalArgument"
        using True X z by (simp add: validateComments_def Let_def translate_def)
      then show ?thesis by blast
    next
      case nz: False
      let ?q = "Diagnostic (Range (Position (line ?last) (character ?last - 1)) ?last)
                  msgUnclosedQuote Error"
      have tr: "translate ?last 0 (- 1) = Inr (Position (line ?last) (character ?last - 1))"
        using nz by (simp add: translate_def nat_diff_distrib')
      have "\<forall>ds ch eds. \<exists>ch' eds'. validateComments d ds ch eds = Inr (ds @ (X @ ?q # Y), ch', eds')"
        using True X Y tr by (cases "stk = []") (simp_all add: validateComments_def Let_def)
      moreover have "list_all isStructural (X @ ?q # Y)"
        using sX sY by (simp add: isStructural_def)
      ultimately show ?thesis by blast
    qed
  qed
qed

lemma validateComments_scanner:
  "validateComments d [] ch eds = Inl e \<Longrightarrow> scannerDiagnostics d = Inl e"
  "validateComments d [] ch eds = Inr (X, ch', eds') \<Longrightarrow> scannerDiagnostics d = Inr X"
  using validateComments_shape[of d]
  by (auto simp: scannerDiagnostics_def split: sum.splits) (metis Inr_inject Pair_inject append_Nil sum.distinct(1))+

lemma scannerDiagnostics_structural:
  "scannerDiagnostics d = Inr X \<Longrightarrow> list_all isStructural X"
  using validateComments_shape[of d]
  by (auto simp: scannerDiagnostics_def split: sum.splits prod.splits) (metis Inr_inject Pair_inject append_Nil)

section \<open>Properties of the validator\<close>

lemma taxa_loop_diagnostics:
  "fst (taxa_loop n ts ds ch) = ds @ map (rowWarning n) (filter (\<lambda>t. Taxon_length t \<noteq> n) ts)"
  by (induction ts arbitrary: ds ch) (simp_all add: rowWarning_def)

lemma crossChecks_diagnostics:
  "fst (crossChecks d ntaxMatch ncharMatch nexusData ds ch) =
     ds @ ntaxDiagnostics d ntaxMatch nexusData @ ncharDiagnostics d ncharMatch nexusData @
     rowDiagnostics ncharMatch nexusData"
  by (cases ntaxMatch; cases ncharMatch)
     (simp_all add: crossChecks_def ntaxDiagnostics_def ncharDiagnostics_def rowDiagnostics_def
        taxa_loop_diagnostics Let_def split: prod.splits)

text \<open>
  The result of a pass over a \<open>nexus\<close> document is fixed by the document: the fault is
  the fault of \<open>diagnosticsOf\<close>, and otherwise the collection holds exactly the
  diagnostics of \<open>diagnosticsOf\<close> under the uri of the document.
\<close>

lemma validateNexus_diagnosticsOf:
  assumes lang: "languageId d = js ''nexus''"
  shows "case diagnosticsOf d of
           Inl e \<Rightarrow> \<exists>h'. validateNexus d now h = Inl (e, h')
         | Inr ds \<Rightarrow> \<exists>h'. validateNexus d now h = Inr h' \<and>
                            collection h' = [uri d \<mapsto> ds]"
proof -
  let ?ch = "[js ''['' @ now @ js ''] Validating '' @ fileName d]"
  let ?eds = "visibleTextEditors h"
  show ?thesis
  proof (cases "validateComments d [] ?ch ?eds")
    case (Inl e)
    from validateComments_scanner(1)[OF Inl] have "diagnosticsOf d = Inl e"
      by (simp add: diagnosticsOf_def)
    moreover have "\<exists>h'. validateNexus d now h = Inl (e, h')"
      using lang Inl by (simp add: validateNexus_def Let_def)
    ultimately show ?thesis by simp
  next
    case (Inr r)
    obtain X ch1 eds1 where r: "r = (X, ch1, eds1)" by (cases r) auto
    from validateComments_scanner(2)[OF Inr[unfolded r]] have sc: "scannerDiagnostics d = Inr X" .
    show ?thesis
    proof (cases "parse d")
      case pl: (Inl e)
      have "diagnosticsOf d = Inl e" using sc pl by (simp add: diagnosticsOf_def)
      moreover have "\<exists>h'. validateNexus d now h = Inl (e, h')"
        using lang Inr r pl by (simp add: validateNexus_def Let_def)
      ultimately show ?thesis by simp
    next
      case pr: (Inr nx)
      let ?ds = "X @ ntaxDiagnostics d (ntaxRegex_exec (getText d)) nx @
                 ncharDiagnostics d (ncharRegex_exec (getText d)) nx @
                 rowDiagnostics (ncharRegex_exec (getText d)) nx"
      have "diagnosticsOf d = Inr ?ds" using sc pr by (simp add: diagnosticsOf_def)
      moreover have "\<exists>h'. validateNexus d now h = Inr h' \<and> collection h' = [uri d \<mapsto> ?ds]"
        using lang Inr r pr crossChecks_diagnostics[of d "ntaxRegex_exec (getText d)"
            "ncharRegex_exec (getText d)" nx X]
        by (simp add: validateNexus_def Let_def split: prod.splits) (metis fst_conv)
      ultimately show ?thesis by simp
    qed
  qed
qed

lemma published_diagnosticsOf:
  "languageId d = js ''nexus'' \<Longrightarrow>
   published d (validateNexus d now h) =
     (case diagnosticsOf d of Inl e \<Rightarrow> None | Inr ds \<Rightarrow> Some ds)"
  using validateNexus_diagnosticsOf[of d now h]
  by (auto simp: published_def split: sum.splits)

lemmas char_defs = js_def isWhitespace_def isDigit_def isWordChar_def isLineTerminator_def
  ciPrefix_def ciEq_def
lemmas regex_defs = ntaxRegex_exec_def ncharRegex_exec_def matrixRegex_exec_def mkMatch_def
  declRegex_at_def matrixRegex_at_def rowTail_def rowQuoted_def rowPlain_def rowRegex_exec_def
  indexOf_def trim_def parseInt_def
lemmas host_defs = translate_def isBefore_def Range_def lf_positionAt_def lf_lineAt_def
  textDocument_def nexusDocument_def bracketDiagnostic_def setDecorations_def
  getRangeFromMatch_def
lemmas model_defs = Sequence_clean_def scan0_def Sequence_new_def pushSequence_def Taxon_new_def
  Taxon_concat_def Taxon_length_def Nexus_new_def addTaxon_def getTaxon_def ntax_def
  maxSequenceLength_def rowTaxon_def parse_def
lemmas valid_defs = validateComments_def scannerDiagnostics_def ntaxDiagnostics_def
  ncharDiagnostics_def rowDiagnostics_def rowWarning_def diagnosticsOf_def
  msgNtax_def msgNchar_def msgRow_def msgUnexpected_def msgUnclosedQuote_def
  msgUnclosedComment_def Number_toString.simps
lemmas eval_defs = char_defs regex_defs host_defs model_defs valid_defs Let_def upt_rec

lemma allKinds_diagnosticsOf:
  "diagnosticsOf (nexusDocument allKindsText) =
     Inr [Diagnostic (MkRange (Position 0 0) (Position 0 1)) msgUnexpected Error,
          Diagnostic (MkRange (Position 0 1) (Position 0 7))
            (js ''Mismatch: NTAX=3 but MATRIX has 2 taxa.'') Error,
          Diagnostic (MkRange (Position 0 8) (Position 0 15))
            (js ''Mismatch: NCHAR=5 but the longest sequence is 4.'') Error,
          Diagnostic (MkRange (Position 1 0) (Position 1 6))
            (js ''Sequence length (4) does not match NCHAR (5).'') Warning,
          Diagnostic (MkRange (Position 2 0) (Position 2 4))
            (js ''Sequence length (2) does not match NCHAR (5).'') Warning]"
  by (simp add: allKindsText_def eval_defs)

lemma nexusDocument_simps:
  "languageId (nexusDocument t) = js ''nexus''" "getText (nexusDocument t) = t"
  "uri (nexusDocument t) = js ''example.nex''"
  by (simp_all add: nexusDocument_def textDocument_def)

text \<open>
  C8. Validation is deterministic. A second pass over the same document, at any other
  time and from the host state the first pass left, ends as the first did: it throws
  the same fault, or it returns with the same diagnostic collection. For a \<open>nexus\<close>
  document the published list depends neither on the time nor on the host state.
\<close>

theorem validation_deterministic:
  "(case validateNexus d now1 h of
      Inl (e, h1) \<Rightarrow> \<exists>h2. validateNexus d now2 h1 = Inl (e, h2)
    | Inr h1 \<Rightarrow> \<exists>h2. validateNexus d now2 h1 = Inr h2 \<and> collection h2 = collection h1) \<and>
   (languageId d = js ''nexus'' \<longrightarrow>
      published d (validateNexus d now1 h) = published d (validateNexus d now2 h'))"
proof (cases "languageId d = js ''nexus''")
  case False
  then show ?thesis by (simp add: validateNexus_def)
next
  case True
  note A = validateNexus_diagnosticsOf[OF True]
  have 2: "published d (validateNexus d now1 h) = published d (validateNexus d now2 h')"
    by (simp add: published_diagnosticsOf[OF True])
  show ?thesis
  proof (cases "diagnosticsOf d")
    case (Inl e)
    with A[of now1 h] obtain h1 where h1: "validateNexus d now1 h = Inl (e, h1)" by auto
    from Inl A[of now2 h1] obtain h2 where "validateNexus d now2 h1 = Inl (e, h2)" by auto
    with h1 2 True show ?thesis by simp
  next
    case (Inr ds)
    with A[of now1 h] obtain h1 where h1: "validateNexus d now1 h = Inr h1"
      "collection h1 = [uri d \<mapsto> ds]" by auto
    from Inr A[of now2 h1] obtain h2 where "validateNexus d now2 h1 = Inr h2"
      "collection h2 = [uri d \<mapsto> ds]" by auto
    with h1 2 True show ?thesis by simp
  qed
qed

theorem validation_deterministic_witness:
  "\<exists>h1 h2. validateNexus (nexusDocument allKindsText) (js ''09:00:00'') host0 = Inr h1 \<and>
     validateNexus (nexusDocument allKindsText) (js ''09:00:01'') h1 = Inr h2 \<and>
     collection h2 = collection h1 \<and> length (the (collection h1 (js ''example.nex''))) = 5"
proof -
  let ?d = "nexusDocument allKindsText"
  from validateNexus_diagnosticsOf[of ?d "js ''09:00:00''" host0]
  obtain h1 where h1: "validateNexus ?d (js ''09:00:00'') host0 = Inr h1"
    and c1: "length (the (collection h1 (js ''example.nex''))) = 5"
    by (auto simp: allKinds_diagnosticsOf nexusDocument_simps)
  from validation_deterministic[where d = ?d and ?now1.0 = "js ''09:00:00''" and h = host0
      and ?now2.0 = "js ''09:00:01''"] h1
  obtain h2 where "validateNexus ?d (js ''09:00:01'') h1 = Inr h2" "collection h2 = collection h1"
    by auto
  with h1 c1 show ?thesis by blast
qed

lemma startsWith_both:
  assumes "startsWith s p" "startsWith s q" "length p \<le> length q"
  shows "take (length p) q = p"
proof -
  have "take (length p) q = take (length p) (take (length q) s)"
    using assms(2) by (simp add: startsWith_def)
  also have "\<dots> = take (length p) s" using assms(3) by (simp add: min_absorb1)
  finally show ?thesis using assms(1) by (simp add: startsWith_def)
qed

lemma diagnostic_kinds_disjoint:
  "\<not> (isStructural dg \<and> isNtaxMismatch dg)" "\<not> (isStructural dg \<and> isNcharMismatch dg)"
  "\<not> (isStructural dg \<and> isRowWarning dg)" "\<not> (isNtaxMismatch dg \<and> isNcharMismatch dg)"
  "\<not> (isNtaxMismatch dg \<and> isRowWarning dg)" "\<not> (isNcharMismatch dg \<and> isRowWarning dg)"
proof -
  have s: "isStructural dg \<Longrightarrow> \<not> startsWith (message dg) (js ''Mismatch: NTAX='') \<and>
       \<not> startsWith (message dg) (js ''Mismatch: NCHAR='') \<and>
       \<not> startsWith (message dg) (js ''Sequence length ('')"
    unfolding isStructural_def
    by (elim disjE)
       (simp_all add: startsWith_def msgUnexpected_def msgUnclosedQuote_def
          msgUnclosedComment_def js_def)
  show "\<not> (isStructural dg \<and> isNtaxMismatch dg)" using s by (auto simp: isNtaxMismatch_def)
  show "\<not> (isStructural dg \<and> isNcharMismatch dg)" using s by (auto simp: isNcharMismatch_def)
  show "\<not> (isStructural dg \<and> isRowWarning dg)" using s by (auto simp: isRowWarning_def)
  show "\<not> (isNtaxMismatch dg \<and> isNcharMismatch dg)"
    using startsWith_both[of "message dg" "js ''Mismatch: NTAX=''" "js ''Mismatch: NCHAR=''"]
    by (auto simp: isNtaxMismatch_def isNcharMismatch_def js_def)
  show "\<not> (isNtaxMismatch dg \<and> isRowWarning dg)"
    by (auto simp: isNtaxMismatch_def isRowWarning_def)
  show "\<not> (isNcharMismatch dg \<and> isRowWarning dg)"
    by (auto simp: isNcharMismatch_def isRowWarning_def)
qed

lemma ntaxDiagnostics_kind:
  "list_all isNtaxMismatch (ntaxDiagnostics d m nx) \<and> length (ntaxDiagnostics d m nx) \<le> 1"
  by (simp add: ntaxDiagnostics_def isNtaxMismatch_def startsWith_def msgNtax_def js_def
      split: option.splits)

lemma ncharDiagnostics_kind:
  "list_all isNcharMismatch (ncharDiagnostics d m nx) \<and> length (ncharDiagnostics d m nx) \<le> 1"
  by (simp add: ncharDiagnostics_def isNcharMismatch_def startsWith_def msgNchar_def js_def
      split: option.splits)

lemma rowDiagnostics_kind: "list_all isRowWarning (rowDiagnostics m nx)"
  by (auto simp add: rowDiagnostics_def isRowWarning_def startsWith_def msgRow_def js_def
      rowWarning_def list_all_iff split: option.splits)

text \<open>
  C9. In the diagnostic list that a pass publishes, the structural diagnostics come
  first, then the NTAX mismatch Error (one at most), then the NCHAR mismatch Error (one
  at most), then the per-taxon length Warnings.
\<close>

theorem diagnostics_order:
  assumes "languageId d = js ''nexus''"
    and "published d (validateNexus d now h) = Some ds"
  shows "\<exists>s n c w. ds = s @ n @ c @ w \<and> list_all isStructural s \<and>
           list_all isNtaxMismatch n \<and> length n \<le> 1 \<and>
           list_all isNcharMismatch c \<and> length c \<le> 1 \<and> list_all isRowWarning w"
proof -
  from assms have "diagnosticsOf d = Inr ds"
    by (simp add: published_diagnosticsOf split: sum.splits)
  then obtain s nx where s: "scannerDiagnostics d = Inr s" and
    ds: "ds = s @ ntaxDiagnostics d (ntaxRegex_exec (getText d)) nx @
              ncharDiagnostics d (ncharRegex_exec (getText d)) nx @
              rowDiagnostics (ncharRegex_exec (getText d)) nx"
    by (auto simp: diagnosticsOf_def split: sum.splits)
  let ?n = "ntaxDiagnostics d (ntaxRegex_exec (getText d)) nx"
  let ?c = "ncharDiagnostics d (ncharRegex_exec (getText d)) nx"
  let ?w = "rowDiagnostics (ncharRegex_exec (getText d)) nx"
  have "ds = s @ ?n @ ?c @ ?w \<and> list_all isStructural s \<and>
        list_all isNtaxMismatch ?n \<and> length ?n \<le> 1 \<and>
        list_all isNcharMismatch ?c \<and> length ?c \<le> 1 \<and> list_all isRowWarning ?w"
    using scannerDiagnostics_structural[OF s] ds ntaxDiagnostics_kind[of d _ nx]
      ncharDiagnostics_kind[of d _ nx] rowDiagnostics_kind[of _ nx]
    by simp
  then show ?thesis by (intro exI)
qed

theorem diagnostics_order_witness:
  "\<exists>s n c w.
     [Diagnostic (MkRange (Position 0 0) (Position 0 1)) msgUnexpected Error,
      Diagnostic (MkRange (Position 0 1) (Position 0 7))
        (js ''Mismatch: NTAX=3 but MATRIX has 2 taxa.'') Error,
      Diagnostic (MkRange (Position 0 8) (Position 0 15))
        (js ''Mismatch: NCHAR=5 but the longest sequence is 4.'') Error,
      Diagnostic (MkRange (Position 1 0) (Position 1 6))
        (js ''Sequence length (4) does not match NCHAR (5).'') Warning,
      Diagnostic (MkRange (Position 2 0) (Position 2 4))
        (js ''Sequence length (2) does not match NCHAR (5).'') Warning] = s @ n @ c @ w \<and>
     list_all isStructural s \<and> list_all isNtaxMismatch n \<and> length n \<le> 1 \<and>
     list_all isNcharMismatch c \<and> length c \<le> 1 \<and> list_all isRowWarning w"
proof -
  have p: "published (nexusDocument allKindsText)
             (validateNexus (nexusDocument allKindsText) (js ''09:00:00'') host0) =
           Some [Diagnostic (MkRange (Position 0 0) (Position 0 1)) msgUnexpected Error,
      Diagnostic (MkRange (Position 0 1) (Position 0 7))
        (js ''Mismatch: NTAX=3 but MATRIX has 2 taxa.'') Error,
      Diagnostic (MkRange (Position 0 8) (Position 0 15))
        (js ''Mismatch: NCHAR=5 but the longest sequence is 4.'') Error,
      Diagnostic (MkRange (Position 1 0) (Position 1 6))
        (js ''Sequence length (4) does not match NCHAR (5).'') Warning,
      Diagnostic (MkRange (Position 2 0) (Position 2 4))
        (js ''Sequence length (2) does not match NCHAR (5).'') Warning]"
    by (simp add: published_diagnosticsOf nexusDocument_simps allKinds_diagnosticsOf)
  show ?thesis
    by (rule diagnostics_order[OF nexusDocument_simps(1) p])
qed

lemma regex_search_at:
  "regex_search at prevWord i s = Some (j, r) \<Longrightarrow>
   i \<le> j \<and> j - i \<le> length s \<and> at (drop (j - i) s) = Some r"
proof (induction s arbitrary: prevWord i)
  case Nil
  then show ?case by (auto split: if_splits)
next
  case (Cons c cs)
  show ?case
  proof (cases "if prevWord then None else at (c # cs)")
    case None
    with Cons.prems have "regex_search at (isWordChar c) (i + 1) cs = Some (j, r)" by simp
    from Cons.IH[OF this] have "i + 1 \<le> j" "j - (i + 1) \<le> length cs"
      "at (drop (j - (i + 1)) cs) = Some r" by simp_all
    moreover from \<open>i + 1 \<le> j\<close> have "j - i = Suc (j - (i + 1))" by simp
    ultimately show ?thesis by simp
  next
    case (Some a)
    with Cons.prems show ?thesis by (auto split: if_splits)
  qed
qed

lemma declRegex_at_text:
  "declRegex_at kw s = Some (whole, g) \<Longrightarrow>
   take (length whole) s = whole \<and> ciPrefix kw whole \<and> length kw < length whole"
proof -
  assume a: "declRegex_at kw s = Some (whole, g)"
  then have p: "ciPrefix kw s" by (simp add: declRegex_at_def split: if_splits)
  from a p obtain c r2 where r1: "dropWhile isWhitespace (drop (length kw) s) = c # r2"
    and c: "c = EQUALS"
    by (auto simp: declRegex_at_def split: list.splits if_splits)
  let ?r3 = "dropWhile isWhitespace r2"
  let ?n = "length s - length (dropWhile isDigit ?r3)"
  from a p r1 c have w: "whole = take ?n s" and ds: "takeWhile isDigit ?r3 \<noteq> []"
    by (auto simp: declRegex_at_def Let_def split: if_splits)
  have l1: "length (dropWhile isDigit ?r3) \<le> length r2"
    by (meson length_dropWhile_le order_trans)
  have "length (c # r2) \<le> length (drop (length kw) s)"
    using r1 by (metis length_dropWhile_le)
  then have l2: "Suc (length r2) + length kw \<le> length s" by simp
  from l1 l2 have n: "length kw < ?n" by linarith
  have lw: "length whole = ?n" using w by simp
  have t: "take (length whole) s = whole" using w lw by simp
  have "take (length kw) whole = take (length kw) s" using w n by (simp add: min_absorb1)
  with p n lw have "ciPrefix kw whole" by (simp add: ciPrefix_def)
  with t n lw show ?thesis by simp
qed

lemma ntaxRegex_exec_text:
  assumes "ntaxRegex_exec txt = Some m"
  shows "take (length (m0 m)) (drop (index m) txt) = m0 m \<and> ciPrefix (js ''NTAX'') (m0 m) \<and>
         index m + length (m0 m) \<le> length txt"
proof -
  from assms obtain j whole g where
    s: "regex_search (declRegex_at (js ''NTAX'')) False 0 txt = Some (j, whole, g)"
    and m: "m = \<lparr>index = j, m0 = whole, m1 = g\<rparr>"
    by (auto simp: ntaxRegex_exec_def mkMatch_def)
  from regex_search_at[OF s] have j: "j \<le> length txt"
    and a: "declRegex_at (js ''NTAX'') (drop j txt) = Some (whole, g)" by simp_all
  from declRegex_at_text[OF a] have t: "take (length whole) (drop j txt) = whole"
    and c: "ciPrefix (js ''NTAX'') whole" by simp_all
  have "length (take (length whole) (drop j txt)) = length whole" using t by simp
  then have "length whole \<le> length (drop j txt)" by simp
  with j have "j + length whole \<le> length txt" by simp
  with t c m show ?thesis by simp
qed

text \<open>
  C7. A document that declares NTAX=3, whose MATRIX block yields two taxa, whose brackets
  and quotes are balanced and which declares no NCHAR gets exactly one diagnostic: an
  Error whose message names 3 and 2. Its range runs from the position of the first
  character of the NTAX declaration to the position after its last character, and the
  text between these two offsets is the declaration.
\<close>

theorem ntax_mismatch_single_error:
  assumes "languageId d = js ''nexus''"
    and "scannerDiagnostics d = Inr []"
    and "ntaxRegex_exec (getText d) = Some m"
    and "parseInt (m1 m) = 3"
    and "ncharRegex_exec (getText d) = None"
    and "parse d = Inr nexusData"
    and "ntax nexusData = 2"
  shows "published d (validateNexus d now h) =
           Some [Diagnostic
                   (Range (positionAt d (index m)) (positionAt d (index m + length (m0 m))))
                   (js ''Mismatch: NTAX=3 but MATRIX has 2 taxa.'') Error] \<and>
         take (length (m0 m)) (drop (index m) (getText d)) = m0 m \<and>
         ciPrefix (js ''NTAX'') (m0 m) \<and> index m + length (m0 m) \<le> length (getText d)"
proof -
  have msg: "msgNtax 3 2 = js ''Mismatch: NTAX=3 but MATRIX has 2 taxa.''"
    by (simp add: msgNtax_def js_def Number_toString.simps)
  have "diagnosticsOf d = Inr [Diagnostic (getRangeFromMatch d m) (msgNtax 3 2) Error]"
    using assms(2-7)
    by (simp add: diagnosticsOf_def ntaxDiagnostics_def ncharDiagnostics_def rowDiagnostics_def)
  then have "published d (validateNexus d now h) =
           Some [Diagnostic
                   (Range (positionAt d (index m)) (positionAt d (index m + length (m0 m))))
                   (js ''Mismatch: NTAX=3 but MATRIX has 2 taxa.'') Error]"
    using assms(1) by (simp add: published_diagnosticsOf msg getRangeFromMatch_def)
  with ntaxRegex_exec_text[OF assms(3)] show ?thesis by simp
qed

theorem ntax_mismatch_single_error_witness:
  "published (nexusDocument headerText)
     (validateNexus (nexusDocument headerText) (js ''09:00:00'') host0) =
   Some [Diagnostic (MkRange (Position 1 11) (Position 1 17))
           (js ''Mismatch: NTAX=3 but MATRIX has 2 taxa.'') Error] \<and>
   take 6 (drop 18 headerText) = js ''NTAX=3''"
proof -
  let ?d = "nexusDocument headerText"
  let ?m = "\<lparr>index = 18, m0 = js ''NTAX=3'', m1 = js ''3''\<rparr>"
  let ?nx = "\<lparr>taxa = [(js ''A'', \<lparr>name = js ''A'', sequence = \<lparr>bases = js ''ACGT''\<rparr>,
                               lineRange = MkRange (Position 3 0) (Position 3 6)\<rparr>),
                      (js ''B'', \<lparr>name = js ''B'', sequence = \<lparr>bases = js ''ACGT''\<rparr>,
                               lineRange = MkRange (Position 4 0) (Position 4 6)\<rparr>)]\<rparr>"
  have 1: "scannerDiagnostics ?d = Inr []" by (simp add: headerText_def eval_defs)
  have 2: "ntaxRegex_exec (getText ?d) = Some ?m" by (simp add: headerText_def eval_defs)
  have 3: "parseInt (m1 ?m) = 3" by (simp add: eval_defs)
  have 4: "ncharRegex_exec (getText ?d) = None" by (simp add: headerText_def eval_defs)
  have 5: "parse ?d = Inr ?nx" by (simp add: headerText_def eval_defs)
  have 6: "ntax ?nx = 2" by (simp add: ntax_def)
  have 7: "Range (positionAt ?d 18) (positionAt ?d (18 + 6)) =
           MkRange (Position 1 11) (Position 1 17)"
    by (simp add: headerText_def eval_defs)
  have 8: "length (js ''NTAX=3'') = 6" by (simp add: js_def)
  from ntax_mismatch_single_error[OF nexusDocument_simps(1) 1 2 3 4 5 6,
      of "js ''09:00:00''" host0]
  have "published ?d (validateNexus ?d (js ''09:00:00'') host0) =
          Some [Diagnostic
                  (Range (positionAt ?d 18) (positionAt ?d (18 + length (js ''NTAX=3''))))
                  (js ''Mismatch: NTAX=3 but MATRIX has 2 taxa.'') Error] \<and>
        take (length (js ''NTAX=3'')) (drop 18 headerText) = js ''NTAX=3''"
    by (simp add: nexusDocument_simps)
  then show ?thesis by (simp only: 8 7)
qed




text \<open>
  C6. On the text \<open>[[[ ]]]\<close> the scanner adds no diagnostic. On \<open>[[[ ]]\<close> it adds exactly
  one, the unclosed-comment Error, on the character at offset 0, the outermost bracket.
  This holds for every Position Index.
\<close>

theorem nested_comments_balance:
  "validateComments (d\<lparr>getText := js ''[[[ ]]]''\<rparr>) ds ch eds =
     Inr (ds, ch, setDecorations d [] eds) \<and>
   validateComments (d\<lparr>getText := js ''[[[ ]]''\<rparr>) ds ch eds =
     Inr (ds @ [Diagnostic (Range (positionAt d 0)
                   (Position (line (positionAt d 0)) (character (positionAt d 0) + 1)))
                 msgUnclosedComment Error],
          ch @ [js ''   [Error] Found 1 unclosed comment blocks.''],
          setDecorations d [Range (positionAt d 0) (positionAt d 6)] eds)"
proof -
  have six: "Suc (Suc (Suc (Suc (Suc (Suc 0))))) = 6" by simp
  show ?thesis
    by (simp add: validateComments_def bracketDiagnostic_Inr setDecorations_def js_def Let_def
        Number_toString.simps six)
qed

theorem nested_comments_balance_witness:
  "scannerDiagnostics (nexusDocument (js ''[[[ ]]]'')) = Inr [] \<and>
   scannerDiagnostics (nexusDocument (js ''[[[ ]]'')) =
     Inr [Diagnostic (MkRange (Position 0 0) (Position 0 1)) msgUnclosedComment Error]"
proof -
  have a: "nexusDocument (js ''[[[ ]]]'')\<lparr>getText := js ''[[[ ]]]''\<rparr> = nexusDocument (js ''[[[ ]]]'')"
    by (simp add: nexusDocument_def textDocument_def)
  have b: "nexusDocument (js ''[[[ ]]'')\<lparr>getText := js ''[[[ ]]''\<rparr> = nexusDocument (js ''[[[ ]]'')"
    by (simp add: nexusDocument_def textDocument_def)
  have p: "positionAt (nexusDocument (js ''[[[ ]]'')) 0 = Position 0 0"
    by (simp add: nexusDocument_def textDocument_def lf_positionAt_def)
  from nested_comments_balance[of "nexusDocument (js ''[[[ ]]]'')" "[]" "[]" "[]"]
    nested_comments_balance[of "nexusDocument (js ''[[[ ]]'')" "[]" "[]" "[]"]
  show ?thesis
    by (simp add: a b p scannerDiagnostics_def Range_def isBefore_def)
qed

text \<open>
  C1. The unclosed-quote diagnostic has severity Error, not Warning: on the text that
  is a single quote the scanner adds one diagnostic, an Error on the last character.
  When the text ends with a line feed the last position has character 0 and the host
  throws on \<open>translate(0, -1)\<close>.
\<close>

theorem unclosed_quote_is_Error:
  "scannerDiagnostics (nexusDocument [QUOTE]) =
     Inr [Diagnostic (MkRange (Position 0 0) (Position 0 1)) msgUnclosedQuote Error] \<and>
   scannerDiagnostics (nexusDocument [QUOTE, LF]) = Inl IllegalArgument"
  by (simp add: scannerDiagnostics_def validateComments_def nexusDocument_def textDocument_def
      lf_positionAt_def translate_def Range_def isBefore_def setDecorations_def Let_def)

section \<open>Properties of the Matrix Model and the parser\<close>

lemma parse_lines_fold:
  "map (lineAt d) ixs = map Inr lns \<Longrightarrow>
   parse_lines d ixs nexus = Inr (foldl addTaxon nexus (List.map_filter rowTaxon lns))"
proof (induction ixs arbitrary: lns nexus)
  case Nil
  then show ?case by (simp add: List.map_filter_simps)
next
  case (Cons i ixs)
  then obtain ln rest where lns: "lns = ln # rest" and l: "lineAt d i = Inr ln"
    and r: "map (lineAt d) ixs = map Inr rest" by (cases lns) auto
  show ?case
    using Cons.IH[OF r] l lns by (cases "rowTaxon ln") (simp_all add: List.map_filter_simps)
qed

lemma Sequence_eq: "(sq :: Sequence)\<lparr>bases := x\<rparr> = \<lparr>bases = x\<rparr>"
  by (cases sq) simp

lemma extended_Nil: "extended taxon [] = taxon"
  by (cases taxon) (simp add: extended_def)

lemma extended_concat:
  "extended (Taxon_concat t0 (sequence r)) later = extended t0 (r # later)"
  by (simp add: extended_def Taxon_concat_def pushSequence_def Sequence_eq)

lemma map_of_update_values:
  "map_of (map (\<lambda>(k, e). if k = n then (k, f e) else (k, e)) xs) k =
     (if k = n then map_option f (map_of xs k) else map_of xs k)"
  by (induction xs) auto

lemma wellFormed_addTaxon: "wellFormed nexus \<Longrightarrow> wellFormed (addTaxon nexus taxon)"
proof (cases "name taxon \<in> set (map fst (taxa nexus))")
  case True
  assume wf: "wellFormed nexus"
  let ?f = "\<lambda>(k, existing). if k = name taxon then (k, Taxon_concat existing (sequence taxon))
              else (k, existing)"
  have keys: "fst \<circ> ?f = fst"
    by (auto simp: fun_eq_iff)
  have names: "list_all (\<lambda>(k, t). name t = k) (map ?f (taxa nexus))"
    using wf by (fastforce simp: wellFormed_def list_all_iff Taxon_concat_def split: if_splits)
  show ?thesis using True wf keys names by (simp add: wellFormed_def addTaxon_def)
next
  case False
  assume "wellFormed nexus"
  with False show ?thesis by (simp add: wellFormed_def addTaxon_def)
qed

lemma getTaxon_addTaxon:
  "getTaxon (addTaxon nexus taxon) k =
     (if k = name taxon
      then Some (case getTaxon nexus k of
                   None \<Rightarrow> taxon
                 | Some existing \<Rightarrow> Taxon_concat existing (sequence taxon))
      else getTaxon nexus k)"
proof (cases "name taxon \<in> set (map fst (taxa nexus))")
  case True
  then obtain e where "map_of (taxa nexus) (name taxon) = Some e"
    by (metis list.set_map map_of_eq_None_iff not_None_eq)
  with True show ?thesis
    by (simp add: getTaxon_def addTaxon_def map_of_update_values)
next
  case False
  then have "map_of (taxa nexus) (name taxon) = None"
    by (simp add: map_of_eq_None_iff)
  with False show ?thesis
    by (auto simp: getTaxon_def addTaxon_def map_add_def split: option.splits)
qed

lemma getTaxon_foldl:
  "getTaxon (foldl addTaxon nexus rows) k =
     (case getTaxon nexus k of
        None \<Rightarrow> (case filter (\<lambda>t. name t = k) rows of
                    [] \<Rightarrow> None
                  | t # later \<Rightarrow> Some (extended t later))
      | Some t0 \<Rightarrow> Some (extended t0 (filter (\<lambda>t. name t = k) rows)))"
proof (induction rows arbitrary: nexus)
  case Nil
  then show ?case by (simp add: extended_Nil split: option.splits)
next
  case (Cons r rows)
  show ?case
    by (simp add: Cons.IH getTaxon_addTaxon extended_concat split: option.splits)
qed

lemma wellFormed_foldl: "wellFormed nexus \<Longrightarrow> wellFormed (foldl addTaxon nexus rows)"
  by (induction rows arbitrary: nexus) (simp_all add: wellFormed_addTaxon)

lemma wellFormed_new: "wellFormed Nexus_new"
  by (simp add: wellFormed_def Nexus_new_def)

lemma single_entry:
  "distinct (map fst xs) \<Longrightarrow> map_of xs k = Some v \<Longrightarrow>
   length (filter (\<lambda>(k', _). k' = k) xs) = 1"
proof (induction xs)
  case Nil
  then show ?case by simp
next
  case (Cons x xs)
  obtain a b where x: "x = (a, b)" by (cases x)
  show ?case
  proof (cases "a = k")
    case True
    with Cons.prems x have "k \<notin> fst ` set xs" by auto
    then have "filter (\<lambda>(k', _). k' = k) xs = []"
      by (force simp: filter_empty_conv)
    with True x show ?thesis by simp
  next
    case False
    with Cons x show ?thesis by simp
  qed
qed

lemma getTaxon_mem: "getTaxon nexus k = Some t \<Longrightarrow> (k, t) \<in> set (taxa nexus)"
  by (simp add: getTaxon_def map_of_SomeD)

lemma rowTaxon_range: "rowTaxon ln = Some t \<Longrightarrow> lineRange t = range_l ln"
  by (auto simp: rowTaxon_def Taxon_new_def Let_def split: if_splits option.splits)

lemma getTaxon_new: "getTaxon Nexus_new k = None"
  by (simp add: getTaxon_def Nexus_new_def)

lemma map_filter_append:
  "List.map_filter f (xs @ ys) = List.map_filter f xs @ List.map_filter f ys"
  by (simp add: List.map_filter_def)

lemma interleaved_lines:
  "map (lineAt (nexusDocument interleavedText)) [1..<4] =
     map Inr [\<lparr>text_l = js ''A ACGT'', range_l = MkRange (Position 1 0) (Position 1 6)\<rparr>,
              \<lparr>text_l = js ''B ACGT'', range_l = MkRange (Position 2 0) (Position 2 6)\<rparr>,
              \<lparr>text_l = js ''A TTTT'', range_l = MkRange (Position 3 0) (Position 3 6)\<rparr>]"
  by (simp add: interleavedText_def eval_defs)

lemma interleaved_rows:
  "rowTaxon \<lparr>text_l = js ''A ACGT'', range_l = MkRange (Position 1 0) (Position 1 6)\<rparr> =
     Some \<lparr>name = js ''A'', sequence = \<lparr>bases = js ''ACGT''\<rparr>,
           lineRange = MkRange (Position 1 0) (Position 1 6)\<rparr>"
  "rowTaxon \<lparr>text_l = js ''B ACGT'', range_l = MkRange (Position 2 0) (Position 2 6)\<rparr> =
     Some \<lparr>name = js ''B'', sequence = \<lparr>bases = js ''ACGT''\<rparr>,
           lineRange = MkRange (Position 2 0) (Position 2 6)\<rparr>"
  "rowTaxon \<lparr>text_l = js ''A TTTT'', range_l = MkRange (Position 3 0) (Position 3 6)\<rparr> =
     Some \<lparr>name = js ''A'', sequence = \<lparr>bases = js ''TTTT''\<rparr>,
           lineRange = MkRange (Position 3 0) (Position 3 6)\<rparr>"
  by (simp_all add: eval_defs)

lemma interleaved_parse:
  "parse (nexusDocument interleavedText) =
     parse_lines (nexusDocument interleavedText) [1..<4] Nexus_new"
  by (simp add: interleavedText_def parse_def char_defs regex_defs host_defs Let_def upt_rec
      del: parse_lines.simps)

text \<open>
  C5. When the rows that name taxon \<open>A\<close> have the cleaned sequences \<open>ACGT\<close> and \<open>TTTT\<close>, in
  this order, the Matrix Model has a single entry for \<open>A\<close>, and its sequence is
  \<open>ACGTTTTT\<close>, of length 8: the sequences are concatenated in row order.
\<close>

theorem interleaved_rows_concatenate:
  assumes "map (lineAt d) ixs = map Inr lns"
    and "map (\<lambda>t. bases (sequence t))
           (filter (\<lambda>t. name t = js ''A'') (List.map_filter rowTaxon lns)) =
         [js ''ACGT'', js ''TTTT'']"
  shows "\<exists>nexus taxon. parse_lines d ixs Nexus_new = Inr nexus \<and>
           length (filter (\<lambda>(k, _). k = js ''A'') (taxa nexus)) = 1 \<and>
           getTaxon nexus (js ''A'') = Some taxon \<and>
           bases (sequence taxon) = js ''ACGTTTTT'' \<and> Taxon_length taxon = 8"
proof -
  let ?rows = "List.map_filter rowTaxon lns"
  let ?nexus = "foldl addTaxon Nexus_new ?rows"
  from assms(2) obtain t1 t2 where
    f: "filter (\<lambda>t. name t = js ''A'') ?rows = [t1, t2]"
    and b: "bases (sequence t1) = js ''ACGT''" "bases (sequence t2) = js ''TTTT''"
    by auto
  have p: "parse_lines d ixs Nexus_new = Inr ?nexus"
    by (rule parse_lines_fold[OF assms(1)])
  have g: "getTaxon ?nexus (js ''A'') = Some (extended t1 [t2])"
    by (simp add: getTaxon_foldl getTaxon_new f)
  have e: "bases (sequence (extended t1 [t2])) = js ''ACGTTTTT''"
    by (simp add: extended_def b) (simp add: js_def)
  have l: "Taxon_length (extended t1 [t2]) = 8"
    by (simp add: Taxon_length_def e) (simp add: js_def)
  have "wellFormed ?nexus" by (rule wellFormed_foldl[OF wellFormed_new])
  then have "distinct (map fst (taxa ?nexus))" by (simp add: wellFormed_def)
  from single_entry[OF this g[unfolded getTaxon_def]]
  have s: "length (filter (\<lambda>(k, _). k = js ''A'') (taxa ?nexus)) = 1" .
  from p s g e l show ?thesis by blast
qed

theorem interleaved_rows_concatenate_witness:
  "\<exists>nexus taxon. parse (nexusDocument interleavedText) = Inr nexus \<and>
     length (filter (\<lambda>(k, _). k = js ''A'') (taxa nexus)) = 1 \<and>
     getTaxon nexus (js ''A'') = Some taxon \<and>
     bases (sequence taxon) = js ''ACGTTTTT'' \<and> Taxon_length taxon = 8"
proof -
  have "map (\<lambda>t. bases (sequence t))
          (filter (\<lambda>t. name t = js ''A'')
             (List.map_filter rowTaxon
                [\<lparr>text_l = js ''A ACGT'', range_l = MkRange (Position 1 0) (Position 1 6)\<rparr>,
                 \<lparr>text_l = js ''B ACGT'', range_l = MkRange (Position 2 0) (Position 2 6)\<rparr>,
                 \<lparr>text_l = js ''A TTTT'', range_l = MkRange (Position 3 0) (Position 3 6)\<rparr>])) =
        [js ''ACGT'', js ''TTTT'']"
    by (simp add: List.map_filter_simps eval_defs)
  from interleaved_rows_concatenate[OF interleaved_lines this]
  show ?thesis by (simp only: interleaved_parse)
qed

text \<open>
  C4 (as amended). When the same taxon name appears in several rows, the entry of the
  Matrix Model keeps the row range of the first of them (\<open>ln1\<close>, after the lines \<open>before\<close>
  that do not name the taxon; the lines \<open>after\<close> may name it again), and the length
  Warning of step 5 for that taxon is on that range.
\<close>

theorem row_warning_on_first_row:
  assumes "map (lineAt d) ixs = map Inr (before @ ln1 # after)"
    and "list_all (\<lambda>ln. case rowTaxon ln of None \<Rightarrow> True | Some t \<Rightarrow> name t \<noteq> k) before"
    and "rowTaxon ln1 = Some t1"
    and "name t1 = k"
  shows "\<exists>nexus taxon. parse_lines d ixs Nexus_new = Inr nexus \<and>
           getTaxon nexus k = Some taxon \<and> (k, taxon) \<in> set (taxa nexus) \<and>
           lineRange taxon = range_l ln1 \<and>
           fst (taxa_loop definedNchar [taxon] [] []) =
             (if Taxon_length taxon \<noteq> definedNchar
              then [Diagnostic (range_l ln1) (msgRow (Taxon_length taxon) definedNchar) Warning]
              else [])"
proof -
  let ?rows = "List.map_filter rowTaxon (before @ ln1 # after)"
  let ?nexus = "foldl addTaxon Nexus_new ?rows"
  let ?later = "filter (\<lambda>t. name t = k) (List.map_filter rowTaxon after)"
  have pre: "filter (\<lambda>t. name t = k) (List.map_filter rowTaxon before) = []"
    using assms(2) by (induction before) (auto simp: List.map_filter_simps split: option.splits)
  have f: "filter (\<lambda>t. name t = k) ?rows = t1 # ?later"
    using pre assms(3,4) by (simp add: map_filter_append List.map_filter_simps)
  have p: "parse_lines d ixs Nexus_new = Inr ?nexus"
    by (rule parse_lines_fold[OF assms(1)])
  have g: "getTaxon ?nexus k = Some (extended t1 ?later)"
    by (simp add: getTaxon_foldl getTaxon_new f)
  have r: "lineRange (extended t1 ?later) = range_l ln1"
    using rowTaxon_range[OF assms(3)] by (simp add: extended_def)
  have w: "fst (taxa_loop definedNchar [extended t1 ?later] [] []) =
             (if Taxon_length (extended t1 ?later) \<noteq> definedNchar
              then [Diagnostic (range_l ln1)
                      (msgRow (Taxon_length (extended t1 ?later)) definedNchar) Warning]
              else [])"
    by (simp add: r)
  from p g getTaxon_mem[OF g] r w show ?thesis by blast
qed

theorem row_warning_on_first_row_witness:
  "\<exists>nexus taxon. parse (nexusDocument interleavedText) = Inr nexus \<and>
     getTaxon nexus (js ''A'') = Some taxon \<and> (js ''A'', taxon) \<in> set (taxa nexus) \<and>
     lineRange taxon = MkRange (Position 1 0) (Position 1 6) \<and>
     fst (taxa_loop 4 [taxon] [] []) =
       (if Taxon_length taxon \<noteq> 4
        then [Diagnostic (MkRange (Position 1 0) (Position 1 6))
                (msgRow (Taxon_length taxon) 4) Warning]
        else [])"
proof -
  let ?l1 = "\<lparr>text_l = js ''A ACGT'', range_l = MkRange (Position 1 0) (Position 1 6)\<rparr>"
  let ?after = "[\<lparr>text_l = js ''B ACGT'', range_l = MkRange (Position 2 0) (Position 2 6)\<rparr>,
                 \<lparr>text_l = js ''A TTTT'', range_l = MkRange (Position 3 0) (Position 3 6)\<rparr>]"
  have 1: "map (lineAt (nexusDocument interleavedText)) [1..<4] = map Inr ([] @ ?l1 # ?after)"
    unfolding append_Nil by (rule interleaved_lines)
  have 2: "list_all (\<lambda>ln. case rowTaxon ln of None \<Rightarrow> True | Some t \<Rightarrow> name t \<noteq> js ''A'') []"
    by simp
  have 4: "name \<lparr>name = js ''A'', sequence = \<lparr>bases = js ''ACGT''\<rparr>,
                  lineRange = MkRange (Position 1 0) (Position 1 6)\<rparr> = js ''A''" by simp
  from row_warning_on_first_row[OF 1 2 interleaved_rows(1) 4, of 4]
  show ?thesis by (simp only: interleaved_parse textline.simps)
qed

text \<open>
  Taxon \<open>A\<close> is named on lines 1 and 3 of the interleaved example; its Warning is on the
  range of line 1, not of line 3.
\<close>

theorem row_warning_not_on_last_row:
  "published (nexusDocument interleavedText)
     (validateNexus (nexusDocument interleavedText) (js ''09:00:00'') host0) =
   Some [Diagnostic (MkRange (Position 0 0) (Position 0 7))
           (js ''Mismatch: NCHAR=4 but the longest sequence is 8.'') Error,
         Diagnostic (MkRange (Position 1 0) (Position 1 6))
           (js ''Sequence length (8) does not match NCHAR (4).'') Warning] \<and>
   lineAt (nexusDocument interleavedText) 1 =
     Inr \<lparr>text_l = js ''A ACGT'', range_l = MkRange (Position 1 0) (Position 1 6)\<rparr> \<and>
   lineAt (nexusDocument interleavedText) 3 =
     Inr \<lparr>text_l = js ''A TTTT'', range_l = MkRange (Position 3 0) (Position 3 6)\<rparr>"
proof -
  have "diagnosticsOf (nexusDocument interleavedText) =
    Inr [Diagnostic (MkRange (Position 0 0) (Position 0 7))
           (js ''Mismatch: NCHAR=4 but the longest sequence is 8.'') Error,
         Diagnostic (MkRange (Position 1 0) (Position 1 6))
           (js ''Sequence length (8) does not match NCHAR (4).'') Warning]"
    by (simp add: interleavedText_def eval_defs)
  moreover have "lineAt (nexusDocument interleavedText) 1 =
     Inr \<lparr>text_l = js ''A ACGT'', range_l = MkRange (Position 1 0) (Position 1 6)\<rparr>"
    by (simp add: interleavedText_def eval_defs)
  moreover have "lineAt (nexusDocument interleavedText) 3 =
     Inr \<lparr>text_l = js ''A TTTT'', range_l = MkRange (Position 3 0) (Position 3 6)\<rparr>"
    by (simp add: interleavedText_def eval_defs)
  ultimately show ?thesis
    by (simp add: published_diagnosticsOf nexusDocument_simps)
qed

end
